theory Spec2Isabelle
  imports Complex_Main "HOL-Library.Word" "HOL-Library.AList"
begin

unbundle bit_operations_syntax

section \<open>Errors\<close>

text \<open>
  Every exception the TypeScript sources can raise is a value of \<open>error\<close>:
  a property read on \<open>null\<close>/\<open>undefined\<close> or a call of \<open>null\<close> is a
  \<open>TypeError\<close>, a failed \<open>assert\<close> an \<open>AssertionError\<close>, a read past the end of
  a buffer is \<open>ReadOutsideBuffer\<close>, a failure of one of the external steps of the
  connect routine is \<open>ConnectFailure\<close> of that step, and \<open>throw new Error(msg)\<close> is
  \<open>Error msg\<close>.
\<close>

datatype connectStep = NetworkConnect | ConnectFileTransfer | DownloadSources | ConnectStateMap

datatype error =
  TypeError | AssertionError | ReadOutsideBuffer | ConnectFailure connectStep | Error string

section \<open>BeatInfo (src/services/BeatInfo.ts)\<close>

subsection \<open>Data\<close>

text \<open>
  The interfaces \<open>playerBeatData\<close> and \<open>BeatData\<close>.  The records are parametric in the
  type \<open>'n\<close> of a JavaScript number: \<open>parseData\<close> keeps each double as the 64-bit
  IEEE-754 pattern it read, and \<open>messageHandler\<close> works for any type of numbers with
  the arithmetic given below.  The optional field \<open>samples?\<close> is an option; \<open>clock\<close> is
  the unsigned 64-bit value read from the wire, \<open>playerCount\<close> the unsigned 32-bit count
  as a natural number.
\<close>

record 'n playerBeatData =
  beat :: 'n
  totalBeats :: 'n
  BPM :: 'n
  samples :: "'n option"

record 'n BeatData =
  clock :: "64 word"
  playerCount :: nat
  player :: "'n playerBeatData list"

text \<open>
  Modelled from the spec: the type \<open>ServiceMessage<T>\<close> of \<open>../types\<close>, which is not
  among the sources: \<open>{id: numeric message-type tag, message: T}\<close>, here for
  \<open>T = BeatData\<close>.  The tag is the unsigned 32-bit value \<open>parseData\<close> reads;
  \<open>messageHandler\<close> tests whether \<open>message\<close> is there, so it is an option.
\<close>

record 'n ServiceMessage =
  msg_id :: "32 word"
  message :: "'n BeatData option"

record 'n BeatOptions =
  everyNBeats :: 'n

text \<open>
  The arithmetic of JavaScript numbers is that of IEEE-754 doubles, with its rounding,
  its infinities and NaN.  It is not defined here: the four operations that
  \<open>messageHandler\<close> applies to numbers are a parameter of the model, so that what is
  proved of the handler holds for the arithmetic of doubles, whatever it computes:
  \<open>num_div a b\<close> is \<open>a / b\<close>, \<open>num_floor a\<close> is \<open>Math.floor(a)\<close>, \<open>num_sub a b\<close> is
  \<open>a - b\<close> and \<open>num_ge1 a\<close> is \<open>a >= 1\<close>.
\<close>

record 'n numberOps =
  num_div :: "'n \<Rightarrow> 'n \<Rightarrow> 'n"
  num_floor :: "'n \<Rightarrow> 'n"
  num_sub :: "'n \<Rightarrow> 'n \<Rightarrow> 'n"
  num_ge1 :: "'n \<Rightarrow> bool"

text \<open>
  The user callback is opaque to the service; it is modelled by an identifier, and
  each invocation is recorded, in order, in the field \<open>calls\<close> of the service state
  together with the argument it received.  A callback is assumed to return normally.
  The three private fields start as \<open>null\<close>, here \<open>None\<close>.
\<close>

type_synonym beatCallback = nat

record 'n BeatInfo =
  userBeatCallback :: "beatCallback option"
  userBeatOptions :: "'n BeatOptions option"
  currentBeatData :: "'n BeatData option"
  calls :: "(beatCallback \<times> 'n BeatData) list"

definition newBeatInfo :: "'n BeatInfo" where
  "newBeatInfo = \<lparr>userBeatCallback = None, userBeatOptions = None,
     currentBeatData = None, calls = []\<rparr>"

subsection \<open>messageHandler\<close>

text \<open>
  \<open>resCheck(res, prevBeat, currentBeat)\<close>, the local function of \<open>messageHandler\<close>:
  \<^verbatim>\<open>Math.floor(currentBeat/res) - Math.floor(prevBeat/res) >= 1
   || Math.floor(prevBeat/res) - Math.floor(currentBeat/res) >= 1\<close>
\<close>

definition resCheck :: "'n numberOps \<Rightarrow> 'n \<Rightarrow> 'n \<Rightarrow> 'n \<Rightarrow> bool" where
  "resCheck ops res prevBeat currentBeat \<longleftrightarrow>
     num_ge1 ops (num_sub ops (num_floor ops (num_div ops currentBeat res))
                              (num_floor ops (num_div ops prevBeat res)))
   \<or> num_ge1 ops (num_sub ops (num_floor ops (num_div ops prevBeat res))
                              (num_floor ops (num_div ops currentBeat res)))"

text \<open>
  The \<open>for\<close> loop of \<open>messageHandler\<close>, from index \<open>i\<close> with the flag
  \<open>hasUpdated\<close>.  Each iteration reads \<open>this._userBeatOptions.everyNBeats\<close>,
  \<open>this._currentBeatData.player[i].beat\<close> and \<open>p_data.message.player[i].beat\<close>;
  a \<open>null\<close> options object or an index beyond either player array makes the property
  read throw a \<open>TypeError\<close>.
\<close>

function playerLoop ::
  "'n numberOps \<Rightarrow> 'n BeatOptions option \<Rightarrow> 'n playerBeatData list \<Rightarrow>
   'n playerBeatData list \<Rightarrow> nat \<Rightarrow> nat \<Rightarrow> bool \<Rightarrow> error + bool" where
  "playerLoop ops opts cur new n i hasUpdated =
     (if i < n then
        (case opts of
           None \<Rightarrow> Inl TypeError
         | Some options \<Rightarrow>
             if i < length cur \<and> i < length new then
               playerLoop ops opts cur new n (i + 1)
                 (if resCheck ops (everyNBeats options) (beat (cur ! i)) (beat (new ! i))
                  then True else hasUpdated)
             else Inl TypeError)
      else Inr hasUpdated)"
  by pat_completeness auto
termination
  by (relation "measure (\<lambda>(ops, opts, cur, new, n, i, h). n - i)") auto

declare playerLoop.simps [simp del]

text \<open>Calling \<open>this._userBeatCallback(m)\<close>: a \<open>TypeError\<close> while it is \<open>null\<close>.\<close>

definition callUserBeatCallback :: "'n BeatInfo \<Rightarrow> 'n BeatData \<Rightarrow> error + 'n BeatInfo" where
  "callUserBeatCallback s m =
     (case userBeatCallback s of
        None \<Rightarrow> Inl TypeError
      | Some cb \<Rightarrow> Inr (s\<lparr>calls := calls s @ [(cb, m)]\<rparr>))"

text \<open>
  The part of \<open>messageHandler\<close> after the first-message block: the loop over the players
  against the cached message, then the update when \<open>hasUpdated\<close>.  The state is
  returned with the outcome, since an exception keeps the assignments made before it.
\<close>

definition detectChange ::
  "'n numberOps \<Rightarrow> 'n BeatInfo \<Rightarrow> 'n BeatData \<Rightarrow> (error + unit) \<times> 'n BeatInfo" where
  "detectChange ops s m =
     (case currentBeatData s of
        None \<Rightarrow> (if 0 < playerCount m then (Inl TypeError, s) else (Inr (), s))
      | Some c \<Rightarrow>
          (case playerLoop ops (userBeatOptions s) (player c) (player m) (playerCount m) 0 False of
             Inl e \<Rightarrow> (Inl e, s)
           | Inr hasUpdated \<Rightarrow>
               if hasUpdated then
                 (let s' = s\<lparr>currentBeatData := Some m\<rparr> in
                  case callUserBeatCallback s' m of
                    Inl e \<Rightarrow> (Inl e, s')
                  | Inr s'' \<Rightarrow> (Inr (), s''))
               else (Inr (), s)))"

definition messageHandler ::
  "'n numberOps \<Rightarrow> 'n BeatInfo \<Rightarrow> 'n ServiceMessage option \<Rightarrow>
   (error + unit) \<times> 'n BeatInfo" where
  "messageHandler ops s p_data =
     (case p_data of
        None \<Rightarrow> (Inr (), s)
      | Some d \<Rightarrow>
          (case message d of
             None \<Rightarrow> (Inr (), s)
           | Some m \<Rightarrow>
               if currentBeatData s = None then
                 (let s' = s\<lparr>currentBeatData := Some m\<rparr> in
                  case callUserBeatCallback s' m of
                    Inl e \<Rightarrow> (Inl e, s')
                  | Inr s'' \<Rightarrow> detectChange ops s'' m)
               else detectChange ops s m))"

text \<open>\<open>startBeatInfo\<close> stores the callback and the options (the request it then sends
  on the socket is outside this model).\<close>

definition startBeatInfo ::
  "'n BeatInfo \<Rightarrow> beatCallback \<Rightarrow> 'n BeatOptions \<Rightarrow> 'n BeatInfo" where
  "startBeatInfo s beatCB options =
     s\<lparr>userBeatCallback := Some beatCB, userBeatOptions := Some options\<rparr>"


subsection \<open>ReadContext\<close>

text \<open>
  Modelled from the spec: the class \<open>ReadContext\<close> (\<open>src/utils/ReadContext\<close> is not
  among the sources).  A read cursor wraps an immutable byte buffer and an advancing
  offset; \<open>readUInt32\<close>, \<open>readUInt64\<close> and \<open>readFloat64\<close> are fixed-width
  big-endian reads that advance the offset by the width of the field, \<open>sizeLeft\<close> is
  the number of unread bytes, \<open>isEOF\<close> is \<open>offset = length\<close>, and a read past the end
  fails.  A double is returned as its 64-bit IEEE-754 pattern.
\<close>

type_synonym byte = "8 word"
type_synonym float64 = "64 word"

record ReadContext =
  buffer :: "byte list"
  pos :: nat

text \<open>Modelled from the spec: \<open>sizeLeft()\<close>, the remaining unread bytes.\<close>

definition sizeLeft :: "ReadContext \<Rightarrow> nat" where
  "sizeLeft c = length (buffer c) - pos c"

text \<open>Modelled from the spec: \<open>isEOF()\<close>, offset = length.\<close>

definition isEOF :: "ReadContext \<Rightarrow> bool" where
  "isEOF c \<longleftrightarrow> pos c = length (buffer c)"

text \<open>Modelled from the spec: the protocol is big-endian for multi-byte integers and
  doubles.  The unsigned big-endian value of a byte sequence: the first byte is the
  most significant.\<close>

definition be_uint :: "byte list \<Rightarrow> 'a::len word" where
  "be_uint bs = foldl (\<lambda>acc b. push_bit 8 acc OR ucast b) 0 bs"

text \<open>Modelled from the spec: every read advances the offset by the width of the
  field, and a read past the end fails.\<close>

definition readBytes :: "nat \<Rightarrow> ReadContext \<Rightarrow> error + (byte list \<times> ReadContext)" where
  "readBytes n c =
     (if pos c + n \<le> length (buffer c)
      then Inr (take n (drop (pos c) (buffer c)), c\<lparr>pos := pos c + n\<rparr>)
      else Inl ReadOutsideBuffer)"

text \<open>Modelled from the spec: \<open>readUInt32\<close>, \<open>readUInt64\<close> and \<open>readFloat64\<close>, fixed-width
  reads of 4, 8 and 8 bytes.\<close>

definition readUInt32 :: "ReadContext \<Rightarrow> error + (32 word \<times> ReadContext)" where
  "readUInt32 c = (case readBytes 4 c of Inl e \<Rightarrow> Inl e | Inr (bs, c') \<Rightarrow> Inr (be_uint bs, c'))"

definition readUInt64 :: "ReadContext \<Rightarrow> error + (64 word \<times> ReadContext)" where
  "readUInt64 c = (case readBytes 8 c of Inl e \<Rightarrow> Inl e | Inr (bs, c') \<Rightarrow> Inr (be_uint bs, c'))"

definition readFloat64 :: "ReadContext \<Rightarrow> error + (float64 \<times> ReadContext)" where
  "readFloat64 c = (case readBytes 8 c of Inl e \<Rightarrow> Inl e | Inr (bs, c') \<Rightarrow> Inr (be_uint bs, c'))"

subsection \<open>parseData\<close>

text \<open>
  The first loop of \<open>parseData\<close>: for \<open>i < playerCount\<close>, read \<open>beat\<close>, \<open>totalBeats\<close>
  and \<open>BPM\<close> in this order and push the entry, whose \<open>samples\<close> is still undefined.
\<close>

function readPlayers ::
  "nat \<Rightarrow> nat \<Rightarrow> float64 playerBeatData list \<Rightarrow> ReadContext \<Rightarrow>
   error + (float64 playerBeatData list \<times> ReadContext)" where
  "readPlayers count i players p_ctx =
     (if i < count then
        (case readFloat64 p_ctx of
           Inl e \<Rightarrow> Inl e
         | Inr (b, c1) \<Rightarrow>
             (case readFloat64 c1 of
                Inl e \<Rightarrow> Inl e
              | Inr (t, c2) \<Rightarrow>
                  (case readFloat64 c2 of
                     Inl e \<Rightarrow> Inl e
                   | Inr (m, c3) \<Rightarrow>
                       readPlayers count (i + 1)
                         (players @ [\<lparr>beat = b, totalBeats = t, BPM = m, samples = None\<rparr>])
                         c3)))
      else Inr (players, p_ctx))"
  by pat_completeness auto
termination
  by (relation "measure (\<lambda>(n, i, ps, c). n - i)") auto

declare readPlayers.simps [simp del]

text \<open>
  The second loop: for \<open>i < playerCount\<close>, \<open>player[i].samples = readFloat64()\<close>.  The
  right-hand side is read before the assignment, which throws a \<open>TypeError\<close> when
  \<open>player[i]\<close> does not exist.
\<close>

function readSamples ::
  "nat \<Rightarrow> nat \<Rightarrow> float64 playerBeatData list \<Rightarrow> ReadContext \<Rightarrow>
   error + (float64 playerBeatData list \<times> ReadContext)" where
  "readSamples count i players p_ctx =
     (if i < count then
        (case readFloat64 p_ctx of
           Inl e \<Rightarrow> Inl e
         | Inr (v, c1) \<Rightarrow>
             if i < length players then
               readSamples count (i + 1)
                 (players[i := (players ! i)\<lparr>samples := Some v\<rparr>]) c1
             else Inl TypeError)
      else Inr (players, p_ctx))"
  by pat_completeness auto
termination
  by (relation "measure (\<lambda>(n, i, ps, c). n - i)") auto

declare readSamples.simps [simp del]

text \<open>
  \<open>parseData\<close> returns the message together with the cursor, which the source advances
  in place.  The two \<open>assert\<close>s are the first and the last test.
\<close>

definition parseData :: "ReadContext \<Rightarrow> error + (float64 ServiceMessage \<times> ReadContext)" where
  "parseData p_ctx =
     (if \<not> sizeLeft p_ctx > 72 then Inl AssertionError
      else
        case readUInt32 p_ctx of
          Inl e \<Rightarrow> Inl e
        | Inr (ident, c1) \<Rightarrow>
            (case readUInt64 c1 of
               Inl e \<Rightarrow> Inl e
             | Inr (clk, c2) \<Rightarrow>
                 (case readUInt32 c2 of
                    Inl e \<Rightarrow> Inl e
                  | Inr (count, c3) \<Rightarrow>
                      (case readPlayers (unat count) 0 [] c3 of
                         Inl e \<Rightarrow> Inl e
                       | Inr (players, c4) \<Rightarrow>
                           (case readSamples (unat count) 0 players c4 of
                              Inl e \<Rightarrow> Inl e
                            | Inr (players', c5) \<Rightarrow>
                                if \<not> isEOF c5 then Inl AssertionError
                                else
                                  Inr (\<lparr>msg_id = ident,
                                        message = Some \<lparr>clock = clk,
                                          playerCount = unat count,
                                          player = players'\<rparr>\<rparr>, c5))))))"

subsection \<open>The wire layout of a beat-info frame\<close>

text \<open>
  The layout the specification gives for a response frame, written as an encoder:
  \<open>uint32 messageId | uint64 clock | uint32 playerCount |
  playerCount \<times> (float64 beat, float64 totalBeats, float64 BPM) |
  playerCount \<times> float64 samples\<close>, every field big-endian.  A player is given by its
  four doubles \<open>(beat, totalBeats, BPM, samples)\<close>.
\<close>

definition be32 :: "32 word \<Rightarrow> byte list" where
  "be32 w = [ucast (drop_bit 24 w), ucast (drop_bit 16 w), ucast (drop_bit 8 w), ucast w]"

definition be64 :: "64 word \<Rightarrow> byte list" where
  "be64 w = [ucast (drop_bit 56 w), ucast (drop_bit 48 w), ucast (drop_bit 40 w),
             ucast (drop_bit 32 w), ucast (drop_bit 24 w), ucast (drop_bit 16 w),
             ucast (drop_bit 8 w), ucast w]"

type_synonym playerValues = "float64 \<times> float64 \<times> float64 \<times> float64"

definition frameTriple :: "playerValues \<Rightarrow> byte list" where
  "frameTriple v = (case v of (b, t, m, s) \<Rightarrow> be64 b @ be64 t @ be64 m)"

definition frameSamples :: "playerValues \<Rightarrow> byte list" where
  "frameSamples v = (case v of (b, t, m, s) \<Rightarrow> be64 s)"

definition beatFrame :: "32 word \<Rightarrow> 64 word \<Rightarrow> playerValues list \<Rightarrow> byte list" where
  "beatFrame messageId clk vs =
     be32 messageId @ be64 clk @ be32 (of_nat (length vs))
       @ concat (map frameTriple vs) @ concat (map frameSamples vs)"

definition playerOf :: "playerValues \<Rightarrow> float64 playerBeatData" where
  "playerOf v = (case v of (b, t, m, s) \<Rightarrow>
     \<lparr>beat = b, totalBeats = t, BPM = m, samples = Some s\<rparr>)"

text \<open>The entry the first loop pushes for a player: \<open>samples\<close> not yet set.\<close>

definition unsampled :: "playerValues \<Rightarrow> float64 playerBeatData" where
  "unsampled v = (case v of (b, t, m, s) \<Rightarrow>
     \<lparr>beat = b, totalBeats = t, BPM = m, samples = None\<rparr>)"

text \<open>The \<open>playerCount\<close> field of the frame at the cursor: the four bytes at offset 12.\<close>

definition playerCountField :: "ReadContext \<Rightarrow> 32 word" where
  "playerCountField c = be_uint (take 4 (drop (pos c + 12) (buffer c)))"

section \<open>StageLinqDevices (src/network/StageLinqDevices.ts)\<close>

subsection \<open>Data\<close>

datatype ConnectionStatus = CONNECTING | CONNECTED | FAILED

text \<open>
  Modelled from the spec: the types \<open>ConnectionInfo\<close> and \<open>StageLinqOptions\<close> of
  \<open>../types\<close>, which is not among the sources.  \<open>ConnectionInfo\<close> is
  \<open>{address, port, token, source, software: {name, version}}\<close>; the options read by the
  orchestrator are \<open>maxRetries\<close>, \<open>downloadDbSources\<close> and \<open>actingAs.source\<close>.
\<close>

record Software =
  name :: string
  version :: string

record ConnectionInfo =
  address :: string
  port :: nat
  token :: "8 word list"
  source :: string
  software :: Software

record StageLinqOptions =
  maxRetries :: int
  downloadDbSources :: bool
  actingAs_source :: string

text \<open>
  Modelled from the spec: the classes \<open>NetworkDevice\<close> and \<open>FileTransfer\<close>, which are
  not among the sources.  A \<open>NetworkDevice\<close> owns the socket of one remote endpoint,
  and the \<open>FileTransfer\<close> service is connected on it.  Each object is identified by
  the announcement it was created for and by the number of the call of
  \<open>connectToPlayer\<close> that created it.
\<close>

record NetworkDevice =
  nd_info :: ConnectionInfo
  nd_serial :: nat

record FileTransfer =
  ft_device :: NetworkDevice

record StageLinqDevice =
  networkDevice :: NetworkDevice
  fileTransferService :: FileTransfer

text \<open>
  What the orchestrator does to the outside, in order: a call of the connect routine,
  an emitted event, a started \<open>sleep\<close> timer (the source calls \<open>sleep(500)\<close> without
  awaiting it), a socket disconnect, a file request.
\<close>

datatype event = Ready ConnectionInfo | Connected ConnectionInfo

datatype effect =
  Connect ConnectionInfo
  | Emit event
  | Sleep nat
  | Disconnect NetworkDevice
  | GetFile FileTransfer string

text \<open>
  The state of a \<open>StageLinqDevices\<close> object: the map \<open>devices\<close> in insertion order
  (an association list, \<open>Map.set\<close> being \<open>AList.update\<close>), the map
  \<open>discoveryStatus\<close>, the options, and the effects so far.
\<close>

record StageLinqDevices =
  devices :: "(string \<times> StageLinqDevice) list"
  discoveryStatus :: "string \<rightharpoonup> ConnectionStatus"
  options :: StageLinqOptions
  trace :: "effect list"

definition newStageLinqDevices :: "StageLinqOptions \<Rightarrow> StageLinqDevices" where
  "newStageLinqDevices opts =
     \<lparr>devices = [], discoveryStatus = Map.empty, options = opts, trace = []\<rparr>"

subsection \<open>Device identity and the status tests\<close>

text \<open>The decimal digits of a number, as the template literal prints \<open>device.port\<close>.\<close>

function decimal :: "nat \<Rightarrow> string" where
  "decimal n =
     (if n < 10 then [char_of (48 + n)]
      else decimal (n div 10) @ [char_of (48 + n mod 10)])"
  by pat_completeness auto
termination
  by (relation "measure (\<lambda>n. n)") auto

declare decimal.simps [simp del]

text \<open>\<^verbatim>\<open>`${device.address}:${device.port}:[${device.source}/${device.software.name}]`\<close>\<close>

definition deviceId :: "ConnectionInfo \<Rightarrow> string" where
  "deviceId device =
     address device @ '':'' @ decimal (port device) @ '':['' @ source device @ ''/''
       @ name (software device) @ '']''"

definition isConnecting :: "StageLinqDevices \<Rightarrow> ConnectionInfo \<Rightarrow> bool" where
  "isConnecting s device \<longleftrightarrow> discoveryStatus s (deviceId device) = Some CONNECTING"

definition isConnected :: "StageLinqDevices \<Rightarrow> ConnectionInfo \<Rightarrow> bool" where
  "isConnected s device \<longleftrightarrow> discoveryStatus s (deviceId device) = Some CONNECTED"

definition isFailed :: "StageLinqDevices \<Rightarrow> ConnectionInfo \<Rightarrow> bool" where
  "isFailed s device \<longleftrightarrow> discoveryStatus s (deviceId device) = Some FAILED"

text \<open>
  The regular expressions \<^verbatim>\<open>/^SoundSwitch/i\<close> and \<^verbatim>\<open>/^Resolume/i\<close>: the pattern is
  matched character by character from the start of the string, two characters being
  equal when their canonical (upper-case) forms are.  Without the \<open>u\<close> flag a
  character outside ASCII is never canonicalised to an ASCII letter, so for the ASCII
  patterns used here only the letters \<open>a\<close> to \<open>z\<close> change.
\<close>

definition canonicalize :: "char \<Rightarrow> char" where
  "canonicalize ch =
     (if 97 \<le> (of_char ch :: nat) \<and> (of_char ch :: nat) \<le> 122
      then char_of ((of_char ch :: nat) - 32) else ch)"

fun testPrefixIgnoreCase :: "string \<Rightarrow> string \<Rightarrow> bool" where
  "testPrefixIgnoreCase [] str = True"
| "testPrefixIgnoreCase (p # ps) [] = False"
| "testPrefixIgnoreCase (p # ps) (ch # str) =
     (canonicalize p = canonicalize ch \<and> testPrefixIgnoreCase ps str)"

definition isIgnored :: "StageLinqDevices \<Rightarrow> ConnectionInfo \<Rightarrow> bool" where
  "isIgnored s device \<longleftrightarrow>
     source device = actingAs_source (options s)
   \<or> name (software device) = ''OfflineAnalyzer''
   \<or> testPrefixIgnoreCase ''SoundSwitch'' (name (software device))
   \<or> testPrefixIgnoreCase ''Resolume'' (name (software device))
   \<or> name (software device) = ''JM08''
   \<or> name (software device) = ''SSS0''"

text \<open>
  The same list in the words of the specification, to compare with \<open>isIgnored\<close>: a
  case-insensitive prefix is a prefix after both strings are put in lower case
  (\<open>A\<close> to \<open>Z\<close> only).
\<close>

definition lowerASCII :: "char \<Rightarrow> char" where
  "lowerASCII ch =
     (if 65 \<le> (of_char ch :: nat) \<and> (of_char ch :: nat) \<le> 90
      then char_of ((of_char ch :: nat) + 32) else ch)"

definition caseInsensitivePrefix :: "string \<Rightarrow> string \<Rightarrow> bool" where
  "caseInsensitivePrefix p str \<longleftrightarrow>
     length p \<le> length str \<and> map lowerASCII (take (length p) str) = map lowerASCII p"

subsection \<open>connectToPlayer\<close>

text \<open>
  The outcome of the external steps of a connection attempt is given by the network:
  for an announcement and the number of earlier calls of the connect routine, either
  every step succeeds (\<open>None\<close>) or one step throws.  The steps, in the order of the
  source: \<open>networkDevice.connect()\<close>, \<open>connectToService(FileTransfer)\<close>,
  \<open>downloadSourcesFromDevice\<close> (only when \<open>downloadDbSources\<close> is set) and
  \<open>connectToService(StateMap)\<close>.  The entry of \<open>devices\<close> is stored after the second
  step and stays there when a later step throws.  The listeners that forward the
  events of the state map and of the player are not modelled.
\<close>

type_synonym network = "ConnectionInfo \<Rightarrow> nat \<Rightarrow> connectStep option"

definition connectCalls :: "StageLinqDevices \<Rightarrow> nat" where
  "connectCalls s = length (filter (\<lambda>e. case e of Connect _ \<Rightarrow> True | _ \<Rightarrow> False) (trace s))"

definition connectToPlayer ::
  "network \<Rightarrow> StageLinqDevices \<Rightarrow> ConnectionInfo \<Rightarrow> (error + unit) \<times> StageLinqDevices" where
  "connectToPlayer net s connectionInfo =
     (let k = connectCalls s;
          outcome = net connectionInfo k;
          nd = \<lparr>nd_info = connectionInfo, nd_serial = k\<rparr>;
          s0 = s\<lparr>trace := trace s @ [Connect connectionInfo]\<rparr>
      in if outcome = Some NetworkConnect then (Inl (ConnectFailure NetworkConnect), s0)
         else if outcome = Some ConnectFileTransfer
           then (Inl (ConnectFailure ConnectFileTransfer), s0)
         else
           let s1 = s0\<lparr>devices :=
                 AList.update (address connectionInfo)
                   \<lparr>networkDevice = nd, fileTransferService = \<lparr>ft_device = nd\<rparr>\<rparr>
                   (devices s0)\<rparr>
           in if downloadDbSources (options s1) \<and> outcome = Some DownloadSources
                then (Inl (ConnectFailure DownloadSources), s1)
              else if outcome = Some ConnectStateMap
                then (Inl (ConnectFailure ConnectStateMap), s1)
              else (Inr (), s1\<lparr>trace := trace s1 @ [Emit (Connected connectionInfo)]\<rparr>))"

lemma options_connectToPlayer [simp]:
  "options (snd (connectToPlayer net s connectionInfo)) = options s"
  by (simp add: connectToPlayer_def Let_def)

lemma options_after_connectToPlayer:
  "(r, s') = connectToPlayer net s connectionInfo \<Longrightarrow> options s' = options s"
  by (metis options_connectToPlayer snd_conv)

subsection \<open>handleDevice\<close>

text \<open>
  The \<open>while\<close> loop of \<open>handleDevice\<close> with the statements after it: the counter
  \<open>attempt\<close> is compared with \<open>maxRetries\<close>; a successful attempt marks the identity
  \<open>CONNECTED\<close>, emits \<open>ready\<close> and returns; a failed one increments the counter and
  starts the timer; when the loop ends the identity is marked \<open>FAILED\<close> and the error is
  thrown.
\<close>

function retryLoop ::
  "network \<Rightarrow> ConnectionInfo \<Rightarrow> int \<Rightarrow> StageLinqDevices \<Rightarrow>
   (error + unit) \<times> StageLinqDevices" where
  "retryLoop net connectionInfo attempt s =
     (if attempt < maxRetries (options s) then
        (case connectToPlayer net s connectionInfo of
           (Inr u, s') \<Rightarrow>
             (Inr (),
              s'\<lparr>discoveryStatus := (discoveryStatus s')(deviceId connectionInfo \<mapsto> CONNECTED),
                 trace := trace s' @ [Emit (Ready connectionInfo)]\<rparr>)
         | (Inl e, s') \<Rightarrow>
             retryLoop net connectionInfo (attempt + 1) (s'\<lparr>trace := trace s' @ [Sleep 500]\<rparr>))
      else
        (Inl (Error (''Could not connect to '' @ deviceId connectionInfo)),
         s\<lparr>discoveryStatus := (discoveryStatus s)(deviceId connectionInfo \<mapsto> FAILED)\<rparr>))"
  by pat_completeness auto
termination
  by (relation "measure (\<lambda>(net, ci, attempt, s). nat (maxRetries (options s) - attempt))")
     (auto dest: options_after_connectToPlayer)

declare retryLoop.simps [simp del]

text \<open>
  \<open>handleDevice\<close>.  The message logged first is computed without effect.  The test,
  the marking as \<open>CONNECTING\<close> and the first call of the connect routine run without
  an \<open>await\<close> between them, so no other announcement is handled in between.
\<close>

definition handleDevice ::
  "network \<Rightarrow> StageLinqDevices \<Rightarrow> ConnectionInfo \<Rightarrow> (error + unit) \<times> StageLinqDevices" where
  "handleDevice net s connectionInfo =
     (if isConnected s connectionInfo \<or> isConnecting s connectionInfo
         \<or> isFailed s connectionInfo \<or> isIgnored s connectionInfo
      then (Inr (), s)
      else retryLoop net connectionInfo 1
             (s\<lparr>discoveryStatus :=
                  (discoveryStatus s)(deviceId connectionInfo \<mapsto> CONNECTING)\<rparr>))"

subsection \<open>disconnectAll and downloadFile\<close>

text \<open>\<open>disconnectAll\<close> disconnects the socket of every tracked device, in the order of
  the map; a \<open>disconnect\<close> is taken to return normally.\<close>

definition disconnectAll :: "StageLinqDevices \<Rightarrow> StageLinqDevices" where
  "disconnectAll s =
     s\<lparr>trace := trace s @ map (\<lambda>(ip, device). Disconnect (networkDevice device)) (devices s)\<rparr>"

text \<open>
  \<open>downloadFile\<close>: \<open>this.devices.get(ipAddress)\<close> is \<open>undefined\<close> for an address that
  is not a key, and reading \<open>fileTransferService\<close> of it throws a \<open>TypeError\<close>.  The
  file-transfer service is external: \<open>getFile\<close> gives, for a service and a path, the
  bytes of the file or the error it throws.
\<close>

type_synonym fileService = "FileTransfer \<Rightarrow> string \<Rightarrow> error + byte list"

definition downloadFile ::
  "fileService \<Rightarrow> StageLinqDevices \<Rightarrow> string \<Rightarrow> string \<Rightarrow>
   (error + byte list) \<times> StageLinqDevices" where
  "downloadFile getFile s ipAddress path =
     (case map_of (devices s) ipAddress of
        None \<Rightarrow> (Inl TypeError, s)
      | Some device \<Rightarrow>
          (getFile (fileTransferService device) path,
           s\<lparr>trace := trace s @ [GetFile (fileTransferService device) path]\<rparr>))"

section \<open>The Devices registry (src/unnamed/part_000)\<close>

subsection \<open>Identity\<close>

text \<open>
  \<open>Buffer.from(deviceId).toString('hex')\<close>: two lower-case hexadecimal digits for each
  byte.
\<close>

definition hexDigit :: "nat \<Rightarrow> char" where
  "hexDigit n = ''0123456789abcdef'' ! (n mod 16)"

definition toHex :: "byte list \<Rightarrow> string" where
  "toHex bs = concat (map (\<lambda>b. [hexDigit (unat b div 16), hexDigit (unat b mod 16)]) bs)"

text \<open>The five groups of 8, 4, 4, 4 and 12 characters, joined by \<open>-\<close>.\<close>

definition dashed :: "string \<Rightarrow> string" where
  "dashed hex =
     take 8 hex @ ''-'' @ take 4 (drop 8 hex) @ ''-'' @ take 4 (drop 12 hex) @ ''-''
       @ take 4 (drop 16 hex) @ ''-'' @ take 12 (drop 20 hex)"

text \<open>
  The expression
  \<^verbatim>\<open>/(\w{8})(\w{4})(\w{4})(\w{4})(\w{12})/i.exec(Buffer.from(deviceId).toString('hex')).splice(1).join('-')\<close>
  of \<open>getDevice\<close>, \<open>device\<close> and \<open>hasDevice\<close>.  Every character of the hexadecimal
  string is a word character, so the expression matches at the start of the string
  when it has 32 characters or more, and the five groups are the result; on a shorter
  string \<open>exec\<close> returns \<open>null\<close> and \<open>.splice\<close> throws a \<open>TypeError\<close>.
\<close>

definition tokenString :: "byte list \<Rightarrow> error + string" where
  "tokenString did =
     (let hex = toHex did
      in if length hex < 32 then Inl TypeError else Inr (dashed hex))"

text \<open>
  Modelled from the spec: the class \<open>DeviceId\<close> (\<open>../devices\<close> is not among the
  sources), an identity derived from a 16-byte token by formatting it as a canonical
  UUID-style dashed hex string: the hexadecimal digits of bytes 0 to 3, 4 to 5, 6 to
  7, 8 to 9 and 10 to 15 of the token, the five groups separated by \<open>-\<close>.
  \<open>id_string\<close> is its property \<open>string\<close>.
\<close>

definition uuidString :: "byte list \<Rightarrow> string" where
  "uuidString tok =
     toHex (take 4 tok) @ ''-'' @ toHex (take 2 (drop 4 tok)) @ ''-''
       @ toHex (take 2 (drop 6 tok)) @ ''-'' @ toHex (take 2 (drop 8 tok)) @ ''-''
       @ toHex (take 6 (drop 10 tok))"

record DeviceId =
  id_array :: "byte list"
  id_string :: string

definition newDeviceId :: "byte list \<Rightarrow> DeviceId" where
  "newDeviceId tok = \<lparr>id_array = tok, id_string = uuidString tok\<rparr>"

text \<open>The argument type \<open>string | Uint8Array | DeviceId\<close> of the parameter
  \<open>deviceId\<close>, here \<open>did\<close>.\<close>

datatype deviceIdArg = IdString string | IdArray "byte list" | IdObject DeviceId

subsection \<open>Device and Devices\<close>

text \<open>
  A \<open>Device\<close> has its \<open>deviceId\<close>, its \<open>info\<close> and a map of services (opaque, named by
  numbers); the reference to the registry that owns it is left out.  The registry is
  the map \<open>_devices\<close> with the events it has emitted.
\<close>

record Device =
  dev_deviceId :: DeviceId
  info :: ConnectionInfo
  services :: "string \<rightharpoonup> nat"

datatype devicesEvent = NewDevice Device

record Devices =
  devs :: "string \<rightharpoonup> Device"
  emitted :: "devicesEvent list"

definition newDevice :: "ConnectionInfo \<Rightarrow> Device" where
  "newDevice i = \<lparr>dev_deviceId = newDeviceId (token i), info = i, services = Map.empty\<rparr>"

definition addDevice :: "Devices \<Rightarrow> ConnectionInfo \<Rightarrow> Device \<times> Devices" where
  "addDevice r i =
     (let device = newDevice i
      in (device,
          r\<lparr>devs := (devs r)(id_string (dev_deviceId device) \<mapsto> device),
            emitted := emitted r @ [NewDevice device]\<rparr>))"

definition hasDevice :: "Devices \<Rightarrow> deviceIdArg \<Rightarrow> error + bool" where
  "hasDevice r did =
     (case did of
        IdString str \<Rightarrow> Inr (devs r str \<noteq> None)
      | IdObject d \<Rightarrow> Inr (devs r (id_string d) \<noteq> None)
      | IdArray a \<Rightarrow>
          (case tokenString a of Inl e \<Rightarrow> Inl e | Inr k \<Rightarrow> Inr (devs r k \<noteq> None)))"

text \<open>\<open>device\<close>: the lookup, \<open>undefined\<close> (here \<open>None\<close>) for a key that is absent.\<close>

definition device :: "Devices \<Rightarrow> deviceIdArg \<Rightarrow> error + Device option" where
  "device r did =
     (case did of
        IdString str \<Rightarrow> Inr (devs r str)
      | IdObject d \<Rightarrow> Inr (devs r (id_string d))
      | IdArray a \<Rightarrow>
          (case tokenString a of Inl e \<Rightarrow> Inl e | Inr k \<Rightarrow> Inr (devs r k)))"

text \<open>A new registry, and the registry after \<open>addDevice\<close> has been called for each
  announcement of a list, in order.\<close>

definition newDevices :: Devices where
  "newDevices = \<lparr>devs = Map.empty, emitted = []\<rparr>"

definition addDevices :: "Devices \<Rightarrow> ConnectionInfo list \<Rightarrow> Devices" where
  "addDevices r infos = foldl (\<lambda>r' i. snd (addDevice r' i)) r infos"

subsection \<open>getDevice\<close>

text \<open>
  \<open>getDevice\<close> tests \<open>hasDevice\<close>, and while it is false awaits \<open>sleep(150)\<close> and tests
  again; other tasks change the registry while it sleeps.  The registry the \<open>k\<close>-th
  test sees is \<open>registry k\<close>.  After the loop the three branches repeat those of
  \<open>device\<close>, on the registry of the last test, with no \<open>await\<close> in between.  A call
  that never finds the device does not return: its value is \<open>None\<close>.
\<close>

partial_function (option) getDevice ::
  "(nat \<Rightarrow> Devices) \<Rightarrow> nat \<Rightarrow> deviceIdArg \<Rightarrow> (error + Device option) option" where
  "getDevice registry k did =
     (case hasDevice (registry k) did of
        Inl e \<Rightarrow> Some (Inl e)
      | Inr found \<Rightarrow>
          if \<not> found then getDevice registry (Suc k) did
          else Some (device (registry k) did))"

section \<open>Example inputs\<close>

subsection \<open>Beat messages\<close>

text \<open>
  The numbers of the examples are NaN and finite values given exactly, and \<open>ex_ops\<close>
  is the arithmetic of doubles on them as far as the examples go: NaN propagates
  through every operation and \<open>NaN >= 1\<close> is false; every finite value used is a
  multiple of \<open>1/8\<close> below 16 and is divided by 4, so that the quotient, its floor and
  the difference of two floors are doubles and are computed without rounding.  Other
  quotients, which doubles round, and division by zero are not described by it.
\<close>

datatype ex_number = NaN | Num real






text \<open>
  A service started with callback \<open>7\<close> and \<open>everyNBeats = 4\<close>, and the same service
  after a first message of two players, at beats 7.75 and 1.  The messages are given
  by the beats of their players.
\<close>

definition ex_player :: "ex_number \<Rightarrow> ex_number playerBeatData" where
  "ex_player b = \<lparr>beat = b, totalBeats = b, BPM = Num 120, samples = Some (Num 0)\<rparr>"

definition ex_beats :: "ex_number list \<Rightarrow> ex_number BeatData" where
  "ex_beats bs = \<lparr>clock = 0, playerCount = length bs, player = map ex_player bs\<rparr>"

definition ex_msg :: "ex_number BeatData \<Rightarrow> ex_number ServiceMessage option" where
  "ex_msg m = Some \<lparr>msg_id = 0, message = Some m\<rparr>"

definition ex_started :: "ex_number BeatInfo" where
  "ex_started = startBeatInfo newBeatInfo 7 \<lparr>everyNBeats = Num 4\<rparr>"

definition ex_first :: "ex_number BeatData" where
  "ex_first = ex_beats [Num (31 / 4), Num 1]"

definition ex_cached :: "ex_number BeatInfo" where
  "ex_cached = ex_started\<lparr>currentBeatData := Some ex_first, calls := [(7, ex_first)]\<rparr>"

text \<open>Later messages: both players stay in their buckets (7.875 and 2); player 0
  moves to beat 8.25; the same with a third player; the beat of player 0 is NaN.\<close>

definition ex_same :: "ex_number BeatData" where
  "ex_same = ex_beats [Num (63 / 8), Num 2]"

definition ex_cross :: "ex_number BeatData" where
  "ex_cross = ex_beats [Num (33 / 4), Num 1]"

definition ex_grown :: "ex_number BeatData" where
  "ex_grown = ex_beats [Num (33 / 4), Num 1, Num 0]"

definition ex_nan :: "ex_number BeatData" where
  "ex_nan = ex_beats [NaN, Num 1]"

subsection \<open>A beat-info frame\<close>

text \<open>A frame of two players, 80 bytes.\<close>

definition ex_frame :: "byte list" where
  "ex_frame = beatFrame 5 1000 [(1, 2, 3, 4), (5, 6, 7, 8)]"

subsection \<open>Announcements and networks\<close>

text \<open>
  A player announcing itself, an orchestrator with \<open>maxRetries = 3\<close> that has seen
  nothing yet, a network on which every connection fails at the first step, and one on
  which every step succeeds.
\<close>

definition ex_info :: ConnectionInfo where
  "ex_info = \<lparr>address = ''192.168.1.5'', port = 50010,
     token = [0, 1, 2, 3, 4, 5, 6, 7, 8, 9, 10, 11, 12, 13, 14, 255],
     source = ''prime4'', software = \<lparr>name = ''JP13'', version = ''3.0.1''\<rparr>\<rparr>"

definition ex_options :: StageLinqOptions where
  "ex_options = \<lparr>maxRetries = 3, downloadDbSources = False, actingAs_source = ''nowplaying''\<rparr>"

definition ex_fresh :: StageLinqDevices where
  "ex_fresh = newStageLinqDevices ex_options"

definition ex_failing :: network where
  "ex_failing = (\<lambda>ci k. Some NetworkConnect)"

definition ex_reachable :: network where
  "ex_reachable = (\<lambda>ci k. None)"

text \<open>The state after the retries are exhausted on the failing network, the state
  while the announcement is being connected, and the state after a successful
  connection.\<close>

definition ex_exhausted :: StageLinqDevices where
  "ex_exhausted = \<lparr>devices = [], discoveryStatus = [deviceId ex_info \<mapsto> FAILED],
     options = ex_options,
     trace = [Connect ex_info, Sleep 500, Connect ex_info, Sleep 500]\<rparr>"

definition ex_connecting :: StageLinqDevices where
  "ex_connecting = ex_fresh\<lparr>discoveryStatus := [deviceId ex_info \<mapsto> CONNECTING]\<rparr>"

definition ex_device :: StageLinqDevice where
  "ex_device = \<lparr>networkDevice = \<lparr>nd_info = ex_info, nd_serial = 0\<rparr>,
     fileTransferService = \<lparr>ft_device = \<lparr>nd_info = ex_info, nd_serial = 0\<rparr>\<rparr>\<rparr>"

definition ex_connected :: StageLinqDevices where
  "ex_connected = \<lparr>devices = [(''192.168.1.5'', ex_device)],
     discoveryStatus = [deviceId ex_info \<mapsto> CONNECTED],
     options = ex_options,
     trace = [Connect ex_info, Emit (Connected ex_info), Emit (Ready ex_info)]\<rparr>"

text \<open>The same player announced again with another token and version; a SoundSwitch
  instance; a file service that knows one file.\<close>

definition ex_again :: ConnectionInfo where
  "ex_again = ex_info\<lparr>token := [], software := \<lparr>name = ''JP13'', version = ''3.1.0''\<rparr>\<rparr>"

definition ex_soundswitch :: ConnectionInfo where
  "ex_soundswitch = ex_info\<lparr>software := \<lparr>name = ''soundswitchXYZ'', version = ''1''\<rparr>\<rparr>"

definition ex_getFile :: fileService where
  "ex_getFile = (\<lambda>service path.
     if path = ''/Engine Library/m.db'' then Inr [1, 2, 3] else Inl (Error ''no such file''))"

subsection \<open>A registry\<close>

text \<open>
  Another player, with another token.  The announcements that \<open>addDevice\<close> has been
  called for before each test of \<open>getDevice\<close>: none before the first test, the other
  player before the second and the third, and the player \<open>ex_info\<close> too from the
  fourth on.
\<close>

definition ex_other :: ConnectionInfo where
  "ex_other = ex_info\<lparr>address := ''192.168.1.6'',
     token := [255, 1, 2, 3, 4, 5, 6, 7, 8, 9, 10, 11, 12, 13, 14, 15]\<rparr>"

definition ex_added :: "nat \<Rightarrow> ConnectionInfo list" where
  "ex_added k = (if k < 1 then [] else if k < 3 then [ex_other] else [ex_other, ex_info])"

section \<open>Properties of BeatInfo.messageHandler\<close>

lemma playerLoop_throws:
  "i < n \<Longrightarrow> opts = None \<or> length cur < n \<or> length new < n \<Longrightarrow>
   playerLoop ops opts cur new n i h = Inl TypeError"
proof (induction ops opts cur new n i h rule: playerLoop.induct)
  case (1 ops opts cur new n i h)
  show ?case
  proof (cases opts)
    case None
    with "1.prems" show ?thesis by (subst playerLoop.simps) simp
  next
    case (Some opt)
    show ?thesis
    proof (cases "i < length cur \<and> i < length new")
      case False
      with Some "1.prems" show ?thesis
        by (subst playerLoop.simps) auto
    next
      case True
      with "1.prems" Some have "i + 1 < n" by auto
      with "1.IH" [OF "1.prems"(1) Some True] "1.prems"(2) Some True
      have "playerLoop ops opts cur new n (i + 1)
              (if resCheck ops (everyNBeats opt) (beat (cur ! i)) (beat (new ! i))
               then True else h) = Inl TypeError"
        by simp
      with Some True "1.prems"(1) show ?thesis
        by (subst playerLoop.simps) simp
    qed
  qed
qed

lemma ex_from_split:
  "i < n \<Longrightarrow> (\<exists>j. i \<le> j \<and> j < n \<and> P j) \<longleftrightarrow> P i \<or> (\<exists>j. i + 1 \<le> j \<and> j < n \<and> P j)"
  for i n :: nat
  by (metis Suc_eq_plus1 Suc_leI Suc_leD le_neq_implies_less order_refl)

lemma playerLoop_total:
  "n \<le> length cur \<Longrightarrow> n \<le> length new \<Longrightarrow>
   playerLoop ops (Some opt) cur new n i h =
     Inr (h \<or> (\<exists>j. i \<le> j \<and> j < n \<and>
            resCheck ops (everyNBeats opt) (beat (cur ! j)) (beat (new ! j))))"
proof (induction "n - i" arbitrary: i h)
  case 0
  then show ?case by (subst playerLoop.simps) auto
next
  case (Suc k)
  then have lt: "i < n" and k: "k = n - (i + 1)" by auto
  let ?r = "resCheck ops (everyNBeats opt) (beat (cur ! i)) (beat (new ! i))"
  have "playerLoop ops (Some opt) cur new n i h =
        playerLoop ops (Some opt) cur new n (i + 1) (if ?r then True else h)"
    using lt Suc.prems by (subst playerLoop.simps) simp
  also have "\<dots> = Inr ((if ?r then True else h) \<or> (\<exists>j. i + 1 \<le> j \<and> j < n \<and>
            resCheck ops (everyNBeats opt) (beat (cur ! j)) (beat (new ! j))))"
    by (rule Suc.hyps(1) [OF k Suc.prems])
  also have "((if ?r then True else h) \<or> (\<exists>j. i + 1 \<le> j \<and> j < n \<and>
            resCheck ops (everyNBeats opt) (beat (cur ! j)) (beat (new ! j))))
      \<longleftrightarrow> (h \<or> (\<exists>j. i \<le> j \<and> j < n \<and>
            resCheck ops (everyNBeats opt) (beat (cur ! j)) (beat (new ! j))))"
    using ex_from_split [OF lt,
        of "\<lambda>j. resCheck ops (everyNBeats opt) (beat (cur ! j)) (beat (new ! j))"]
    by auto
  finally show ?case .
qed



lemma detectChange_subsequent:
  assumes "currentBeatData s = Some c" "userBeatCallback s = Some cb"
    "userBeatOptions s = Some opt"
    "playerCount m \<le> length (player c)" "playerCount m \<le> length (player m)"
  shows "detectChange ops s m =
    (Inr (),
     if \<exists>i<playerCount m.
          resCheck ops (everyNBeats opt) (beat (player c ! i)) (beat (player m ! i))
     then s\<lparr>currentBeatData := Some m, calls := calls s @ [(cb, m)]\<rparr> else s)"
  using assms
  by (auto simp add: detectChange_def playerLoop_total callUserBeatCallback_def)

lemma detectChange_throws:
  assumes "currentBeatData s = Some c" "length (player c) < playerCount m"
  shows "detectChange ops s m = (Inl TypeError, s)"
proof -
  have "playerLoop ops (userBeatOptions s) (player c) (player m) (playerCount m) 0 False
          = Inl TypeError"
    using assms(2) by (intro playerLoop_throws) auto
  with assms(1) show ?thesis by (simp add: detectChange_def)
qed


lemma ex_beat_simps:
  "userBeatCallback ex_started = Some 7"
  "userBeatOptions ex_started = Some \<lparr>everyNBeats = Num 4\<rparr>"
  "currentBeatData ex_started = None"
  "calls ex_started = []"
  "userBeatCallback ex_cached = Some 7"
  "userBeatOptions ex_cached = Some \<lparr>everyNBeats = Num 4\<rparr>"
  "currentBeatData ex_cached = Some ex_first"
  "calls ex_cached = [(7, ex_first)]"
  by (simp_all add: ex_started_def ex_cached_def startBeatInfo_def newBeatInfo_def)




lemmas ex_msg_defs = ex_first_def ex_same_def ex_cross_def ex_grown_def ex_nan_def
  ex_beats_def ex_player_def



text \<open>
  C9.  With a cached message, a message whose \<open>playerCount\<close> exceeds the number of
  player entries of the cached message makes the handler throw a \<open>TypeError\<close>, and
  nothing is forwarded or cached.  With callback and options registered and a message
  that has its own \<open>playerCount\<close> entries, the handler returns normally exactly when
  \<open>playerCount\<close> does not exceed the length of the cached player list.  Both hold for
  every arithmetic of numbers.
\<close>

theorem messageHandler_not_total:
  assumes "currentBeatData s = Some c"
  shows "(length (player c) < playerCount m \<longrightarrow>
            messageHandler ops s (Some \<lparr>msg_id = k, message = Some m\<rparr>) = (Inl TypeError, s))
       \<and> (userBeatCallback s \<noteq> None \<and> userBeatOptions s \<noteq> None
            \<and> playerCount m \<le> length (player m) \<longrightarrow>
            (fst (messageHandler ops s (Some \<lparr>msg_id = k, message = Some m\<rparr>)) = Inr ()
               \<longleftrightarrow> playerCount m \<le> length (player c)))"
proof -
  have dc: "messageHandler ops s (Some \<lparr>msg_id = k, message = Some m\<rparr>) = detectChange ops s m"
    using assms by (simp add: messageHandler_def)
  have throws: "length (player c) < playerCount m \<Longrightarrow> detectChange ops s m = (Inl TypeError, s)"
    using assms by (rule detectChange_throws)
  have returns: "fst (detectChange ops s m) = Inr ()"
    if "userBeatCallback s \<noteq> None" "userBeatOptions s \<noteq> None"
      "playerCount m \<le> length (player m)" "playerCount m \<le> length (player c)"
  proof -
    from that obtain cb opt where
      "userBeatCallback s = Some cb" "userBeatOptions s = Some opt" by auto
    with assms that show ?thesis by (simp add: detectChange_subsequent)
  qed
  show ?thesis
    unfolding dc using throws returns by (cases "playerCount m \<le> length (player c)") auto
qed

theorem messageHandler_not_total_witness:
  "currentBeatData ex_cached = Some ex_first
   \<and> length (player ex_first) < playerCount ex_grown
   \<and> (\<forall>ops. messageHandler ops ex_cached (ex_msg ex_grown) = (Inl TypeError, ex_cached))
   \<and> userBeatCallback ex_cached \<noteq> None \<and> userBeatOptions ex_cached \<noteq> None
   \<and> playerCount ex_cross \<le> length (player ex_cross)
   \<and> (\<forall>ops. fst (messageHandler ops ex_cached (ex_msg ex_cross)) = Inr ())"
proof -
  have a: "messageHandler ops ex_cached (ex_msg ex_grown) = (Inl TypeError, ex_cached)" for ops
    using messageHandler_not_total [of ex_cached ex_first ex_grown ops 0]
    by (simp add: ex_beat_simps ex_msg_def ex_msg_defs)
  have b: "fst (messageHandler ops ex_cached (ex_msg ex_cross)) = Inr ()" for ops
    using messageHandler_not_total [of ex_cached ex_first ex_cross ops 0]
    by (simp add: ex_beat_simps ex_msg_def ex_msg_defs)
  from a b show ?thesis by (simp add: ex_beat_simps ex_msg_defs)
qed

section \<open>Properties of BeatInfo.parseData\<close>

subsection \<open>Big-endian fields\<close>

lemma be_step:
  "push_bit 8 (drop_bit (k + 8) w) OR ucast (ucast (drop_bit k w) :: byte) = drop_bit k w"
  for w :: "'a::len word"
proof (rule bit_word_eqI)
  fix n assume n: "n < LENGTH('a)"
  show "bit (push_bit 8 (drop_bit (k + 8) w) OR ucast (ucast (drop_bit k w) :: byte)) n
      = bit (drop_bit k w) n"
  proof (cases "n < 8")
    case True
    with n show ?thesis by (simp add: bit_simps)
  next
    case False
    then have "k + 8 + (n - 8) = k + n" by simp
    with False n show ?thesis by (simp add: bit_simps)
  qed
qed

lemma be_uint_be32: "be_uint (be32 w) = w"
proof -
  have z: "drop_bit 32 w = 0" by (simp add: drop_bit_eq_zero_iff_not_bit_last) 
  show ?thesis
    using be_step [of 24 w] be_step [of 16 w]  be_step [of 8 w]  be_step [of 0 w] z
    by (simp add: be_uint_def be32_def)
qed

lemma be_uint_be64: "be_uint (be64 w) = w"
proof -
  have z: "drop_bit 64 w = 0" by simp
  show ?thesis
    using be_step [of 56 w] be_step [of 48 w]  be_step [of 40 w]  be_step [of 32 w]
     be_step [of 24 w] be_step [of 16 w]  be_step [of 8 w]  be_step [of 0 w] z
    by (simp add: be_uint_def be64_def)
qed


subsection \<open>Reads against the remaining bytes\<close>

lemma readBytes_prefix:
  assumes "drop (pos c) (buffer c) = bs @ rest" and ne: "bs \<noteq> []"
  shows "readBytes (length bs) c = Inr (bs, c\<lparr>pos := pos c + length bs\<rparr>)"
    and "drop (pos c + length bs) (buffer c) = rest"
proof -
  have "length (drop (pos c) (buffer c)) = length bs + length rest"
    using assms by simp
  with ne have le: "pos c + length bs \<le> length (buffer c)"
    by (cases "pos c \<le> length (buffer c)") auto
  have tk: "take (length bs) (drop (pos c) (buffer c)) = bs" using assms by simp
  show "readBytes (length bs) c = Inr (bs, c\<lparr>pos := pos c + length bs\<rparr>)"
    using le tk by (simp add: readBytes_def)
  have "drop (length bs) (drop (pos c) (buffer c)) = rest" using assms by simp
  then show "drop (pos c + length bs) (buffer c) = rest" by (simp add: add.commute)
qed

lemma length_be32 [simp]: "length (be32 w) = 4"
  by (simp add: be32_def)

lemma length_be64 [simp]: "length (be64 w) = 8"
  by (simp add: be64_def)

lemma be32_ne [simp]: "be32 w \<noteq> []"
  by (simp add: be32_def)

lemma be64_ne [simp]: "be64 w \<noteq> []"
  by (simp add: be64_def)

lemma readUInt32_be32:
  assumes "drop (pos c) (buffer c) = be32 w @ rest"
  shows "readUInt32 c = Inr (w, c\<lparr>pos := pos c + 4\<rparr>)"
  using readBytes_prefix(1) [OF assms be32_ne] by (simp add: readUInt32_def be_uint_be32)

lemma readUInt64_be64:
  assumes "drop (pos c) (buffer c) = be64 w @ rest"
  shows "readUInt64 c = Inr (w, c\<lparr>pos := pos c + 8\<rparr>)"
  using readBytes_prefix(1) [OF assms be64_ne] by (simp add: readUInt64_def be_uint_be64)

lemma readFloat64_be64:
  assumes "drop (pos c) (buffer c) = be64 w @ rest"
  shows "readFloat64 c = Inr (w, c\<lparr>pos := pos c + 8\<rparr>)"
  using readBytes_prefix(1) [OF assms be64_ne] by (simp add: readFloat64_def be_uint_be64)

lemma drop_after_be32:
  fixes c :: ReadContext
  assumes "drop (pos c) (buffer c) = be32 w @ rest"
  shows "drop (pos c + 4) (buffer c) = rest"
  using readBytes_prefix(2) [OF assms be32_ne] by simp

lemma drop_after_be64:
  fixes c :: ReadContext
  assumes "drop (pos c) (buffer c) = be64 w @ rest"
  shows "drop (pos c + 8) (buffer c) = rest"
  using readBytes_prefix(2) [OF assms be64_ne] by simp

lemma frameTriple_simp: "frameTriple (b, t, m, s) = be64 b @ be64 t @ be64 m"
  by (simp add: frameTriple_def)

lemma frameSamples_simp: "frameSamples (b, t, m, s) = be64 s"
  by (simp add: frameSamples_def)

lemma readPlayers_frame:
  "drop (pos c) (buffer c) = concat (map frameTriple vs) @ rest \<Longrightarrow>
   readPlayers (i + length vs) i acc c =
     Inr (acc @ map unsampled vs, c\<lparr>pos := pos c + 24 * length vs\<rparr>)"
proof (induction vs arbitrary: i acc c)
  case Nil
  show ?case by (subst readPlayers.simps) simp
next
  case (Cons v vs)
  obtain b t m s where v: "v = (b, t, m, s)" by (cases v) auto
  let ?tl = "concat (map frameTriple vs) @ rest"
  define c1 where "c1 = c\<lparr>pos := pos c + 8\<rparr>"
  define c2 where "c2 = c1\<lparr>pos := pos c1 + 8\<rparr>"
  define c3 where "c3 = c2\<lparr>pos := pos c2 + 8\<rparr>"
  from Cons.prems v have r0: "drop (pos c) (buffer c) = be64 b @ (be64 t @ be64 m @ ?tl)"
    by (simp add: frameTriple_simp)
  have f0: "readFloat64 c = Inr (b, c1)"
    unfolding c1_def by (rule readFloat64_be64 [OF r0])
  have r1: "drop (pos c1) (buffer c1) = be64 t @ (be64 m @ ?tl)"
    using drop_after_be64 [OF r0] by (simp add: c1_def)
  have f1: "readFloat64 c1 = Inr (t, c2)"
    unfolding c2_def by (rule readFloat64_be64 [OF r1])
  have r2: "drop (pos c2) (buffer c2) = be64 m @ ?tl"
    using drop_after_be64 [OF r1] by (simp add: c2_def)
  have f2: "readFloat64 c2 = Inr (m, c3)"
    unfolding c3_def by (rule readFloat64_be64 [OF r2])
  have r3: "drop (pos c3) (buffer c3) = ?tl"
    using drop_after_be64 [OF r2] by (simp add: c3_def)
  have step: "readPlayers (i + length (v # vs)) i acc c =
     readPlayers (Suc i + length vs) (Suc i)
       (acc @ [\<lparr>beat = b, totalBeats = t, BPM = m, samples = None\<rparr>]) c3"
    by (subst readPlayers.simps) (simp add: f0 f1 f2)
  have fin: "c3\<lparr>pos := pos c3 + 24 * length vs\<rparr> = c\<lparr>pos := pos c + 24 * length (v # vs)\<rparr>"
    by (simp add: c3_def c2_def c1_def)
  show ?case
    unfolding step Cons.IH [OF r3] fin by (simp add: v unsampled_def)
qed

lemma readSamples_frame:
  "drop (pos c) (buffer c) = concat (map frameSamples vs) @ rest \<Longrightarrow>
   length pre = i \<Longrightarrow>
   readSamples (i + length vs) i (pre @ map unsampled vs) c =
     Inr (pre @ map playerOf vs, c\<lparr>pos := pos c + 8 * length vs\<rparr>)"
proof (induction vs arbitrary: i pre c)
  case Nil
  show ?case by (subst readSamples.simps) simp
next
  case (Cons v vs)
  obtain b t m s where v: "v = (b, t, m, s)" by (cases v) auto
  let ?tl = "concat (map frameSamples vs) @ rest"
  define c1 where "c1 = c\<lparr>pos := pos c + 8\<rparr>"
  from Cons.prems v have r0: "drop (pos c) (buffer c) = be64 s @ ?tl"
    by (simp add: frameSamples_simp)
  have f0: "readFloat64 c = Inr (s, c1)"
    unfolding c1_def by (rule readFloat64_be64 [OF r0])
  have r1: "drop (pos c1) (buffer c1) = ?tl"
    using drop_after_be64 [OF r0] by (simp add: c1_def)
  have nth: "(pre @ map unsampled (v # vs)) ! i = unsampled v"
    using Cons.prems(2) by (simp add: nth_append)
  have upd: "(pre @ map unsampled (v # vs))[i := (unsampled v)\<lparr>samples := Some s\<rparr>]
      = (pre @ [playerOf v]) @ map unsampled vs"
    using Cons.prems(2) by (simp add: v unsampled_def playerOf_def list_update_append)
  have lt: "i < length (pre @ map unsampled (v # vs))" using Cons.prems(2) by simp
  have step: "readSamples (i + length (v # vs)) i (pre @ map unsampled (v # vs)) c =
     readSamples (Suc i + length vs) (Suc i) ((pre @ [playerOf v]) @ map unsampled vs) c1"
    using upd by (subst readSamples.simps) (simp only: f0 nth lt, simp)
  have len: "length (pre @ [playerOf v]) = Suc i" using Cons.prems(2) by simp
  have fin: "c1\<lparr>pos := pos c1 + 8 * length vs\<rparr> = c\<lparr>pos := pos c + 8 * length (v # vs)\<rparr>"
    by (simp add: c1_def)
  show ?case
    unfolding step Cons.IH [OF r1 len] fin by simp
qed

lemma length_frameTriples: "length (concat (map frameTriple vs)) = 24 * length vs"
  by (induction vs) (auto simp: frameTriple_def)

lemma length_frameSamples: "length (concat (map frameSamples vs)) = 8 * length vs"
  by (induction vs) (auto simp: frameSamples_def)

lemma length_beatFrame: "length (beatFrame mid clk vs) = 16 + 32 * length vs"
  by (simp add: beatFrame_def length_frameTriples length_frameSamples)

lemma parseData_beatFrame:
  assumes frame: "drop (pos c) (buffer c) = beatFrame mid clk vs"
    and count: "length vs < 2 ^ 32"
    and size: "72 < sizeLeft c"
  shows "parseData c =
     Inr (\<lparr>msg_id = mid,
           message = Some \<lparr>clock = clk, playerCount = length vs, player = map playerOf vs\<rparr>\<rparr>,
          c\<lparr>pos := length (buffer c)\<rparr>)"
proof -
  let ?n = "length vs"
  let ?T = "concat (map frameTriple vs)" and ?S = "concat (map frameSamples vs)"
  define c1 where "c1 = c\<lparr>pos := pos c + 4\<rparr>"
  define c2 where "c2 = c1\<lparr>pos := pos c1 + 8\<rparr>"
  define c3 where "c3 = c2\<lparr>pos := pos c2 + 4\<rparr>"
  define c4 where "c4 = c3\<lparr>pos := pos c3 + 24 * ?n\<rparr>"
  define c5 where "c5 = c4\<lparr>pos := pos c4 + 8 * ?n\<rparr>"
  have un: "unat (of_nat ?n :: 32 word) = ?n"
    using count by (simp add: unat_of_nat)
  have r0: "drop (pos c) (buffer c) = be32 mid @ (be64 clk @ be32 (of_nat ?n) @ ?T @ ?S)"
    using frame by (simp add: beatFrame_def)
  have f0: "readUInt32 c = Inr (mid, c1)"
    unfolding c1_def by (rule readUInt32_be32 [OF r0])
  have r1: "drop (pos c1) (buffer c1) = be64 clk @ (be32 (of_nat ?n) @ ?T @ ?S)"
    using drop_after_be32 [OF r0] by (simp add: c1_def)
  have f1: "readUInt64 c1 = Inr (clk, c2)"
    unfolding c2_def by (rule readUInt64_be64 [OF r1])
  have r2: "drop (pos c2) (buffer c2) = be32 (of_nat ?n) @ (?T @ ?S)"
    using drop_after_be64 [OF r1] by (simp add: c2_def)
  have f2: "readUInt32 c2 = Inr (of_nat ?n, c3)"
    unfolding c3_def by (rule readUInt32_be32 [OF r2])
  have r3: "drop (pos c3) (buffer c3) = ?T @ ?S"
    using drop_after_be32 [OF r2] by (simp add: c3_def)
  have p: "readPlayers ?n 0 [] c3 = Inr (map unsampled vs, c4)"
    unfolding c4_def using readPlayers_frame [OF r3, of 0 "[]"] by simp
  have "drop (24 * ?n) (drop (pos c3) (buffer c3)) = ?S"
    unfolding r3 by (simp add: length_frameTriples)
  then have r4: "drop (pos c4) (buffer c4) = ?S @ []"
    by (simp add: c4_def add.commute)
  have s: "readSamples ?n 0 (map unsampled vs) c4 = Inr (map playerOf vs, c5)"
    unfolding c5_def using readSamples_frame [OF r4, of "[]" 0] by simp
  have "length (drop (pos c) (buffer c)) = 16 + 32 * ?n"
    unfolding frame by (rule length_beatFrame)
  then have len: "length (buffer c) = pos c + 16 + 32 * ?n" by simp
  then have c5: "c5 = c\<lparr>pos := length (buffer c)\<rparr>"
    by (simp add: c5_def c4_def c3_def c2_def c1_def)
  have eof: "isEOF c5" unfolding c5 by (simp add: isEOF_def)
  have "parseData c =
     Inr (\<lparr>msg_id = mid,
           message = Some \<lparr>clock = clk, playerCount = length vs, player = map playerOf vs\<rparr>\<rparr>,
          c5)"
    using size eof by (simp add: parseData_def f0 f1 f2 un p s)
  then show ?thesis unfolding c5 .
qed


subsection \<open>What a successful parse has consumed\<close>

lemma readBytes_Inr:
  assumes "readBytes n c = Inr (bs, c')"
  shows "c' = c\<lparr>pos := pos c + n\<rparr>" and "pos c + n \<le> length (buffer c)"
    and "bs = take n (drop (pos c) (buffer c))"
  using assms by (auto simp: readBytes_def split: if_splits)

lemma readUInt32_Inr:
  assumes "readUInt32 c = Inr (w, c')"
  shows "c' = c\<lparr>pos := pos c + 4\<rparr>" and "pos c + 4 \<le> length (buffer c)"
    and "w = be_uint (take 4 (drop (pos c) (buffer c)))"
  using assms by (auto simp: readUInt32_def split: sum.splits dest: readBytes_Inr)

lemma readUInt64_Inr:
  assumes "readUInt64 c = Inr (w, c')"
  shows "c' = c\<lparr>pos := pos c + 8\<rparr>" and "pos c + 8 \<le> length (buffer c)"
  using assms by (auto simp: readUInt64_def split: sum.splits dest: readBytes_Inr)

lemma readFloat64_Inr:
  assumes "readFloat64 c = Inr (w, c')"
  shows "c' = c\<lparr>pos := pos c + 8\<rparr>" and "pos c + 8 \<le> length (buffer c)"
  using assms by (auto simp: readFloat64_def split: sum.splits dest: readBytes_Inr)

lemma readPlayers_Inr:
  "readPlayers n i acc c = Inr (ps, c') \<Longrightarrow>
   buffer c' = buffer c \<and> pos c' = pos c + 24 * (n - i)"
proof (induction n i acc c rule: readPlayers.induct)
  case (1 n i acc c)
  show ?case
  proof (cases "i < n")
    case False
    with "1.prems" show ?thesis by (subst (asm) readPlayers.simps) simp
  next
    case True
    from "1.prems" True obtain b c1 t c2 m c3 where
      f: "readFloat64 c = Inr (b, c1)" "readFloat64 c1 = Inr (t, c2)"
         "readFloat64 c2 = Inr (m, c3)"
      and rec: "readPlayers n (i + 1)
         (acc @ [\<lparr>beat = b, totalBeats = t, BPM = m, samples = None\<rparr>]) c3 = Inr (ps, c')"
      by (subst (asm) readPlayers.simps) (auto split: sum.splits)
    have ih: "buffer c' = buffer c3 \<and> pos c' = pos c3 + 24 * (n - (i + 1))"
      using "1.IH" [OF True f(1) refl f(2) refl f(3) refl rec] .
    have "buffer c3 = buffer c" "pos c3 = pos c + 24"
      using readFloat64_Inr(1) [OF f(1)] readFloat64_Inr(1) [OF f(2)]
        readFloat64_Inr(1) [OF f(3)] by simp_all
    with ih True show ?thesis by auto
  qed
qed

lemma readSamples_Inr:
  "readSamples n i ps c = Inr (ps', c') \<Longrightarrow>
   buffer c' = buffer c \<and> pos c' = pos c + 8 * (n - i)"
proof (induction n i ps c rule: readSamples.induct)
  case (1 n i ps c)
  show ?case
  proof (cases "i < n")
    case False
    with "1.prems" show ?thesis by (subst (asm) readSamples.simps) simp
  next
    case True
    from "1.prems" True obtain v c1 where
      f: "readFloat64 c = Inr (v, c1)" and lt: "i < length ps"
      and rec: "readSamples n (i + 1) (ps[i := (ps ! i)\<lparr>samples := Some v\<rparr>]) c1 = Inr (ps', c')"
      by (subst (asm) readSamples.simps) (auto split: sum.splits if_splits)
    have ih: "buffer c' = buffer c1 \<and> pos c' = pos c1 + 8 * (n - (i + 1))"
      using "1.IH" [OF True f refl lt rec] .
    have "buffer c1 = buffer c" "pos c1 = pos c + 8"
      using readFloat64_Inr(1) [OF f] by simp_all
    with ih True show ?thesis by auto
  qed
qed

lemma parseData_Inr:
  assumes "parseData c = Inr (msg, c')"
  shows "72 < sizeLeft c" and "sizeLeft c = 16 + 32 * unat (playerCountField c)"
    and "isEOF c'"
proof -
  show size: "72 < sizeLeft c"
    using assms by (simp add: parseData_def split: if_splits)
  from assms size obtain ident c1 clk c2 count c3 players c4 players' c5 where
    f: "readUInt32 c = Inr (ident, c1)" "readUInt64 c1 = Inr (clk, c2)"
       "readUInt32 c2 = Inr (count, c3)"
    and p: "readPlayers (unat count) 0 [] c3 = Inr (players, c4)"
    and s: "readSamples (unat count) 0 players c4 = Inr (players', c5)"
    and eof: "isEOF c5" and c': "c' = c5"
    by (auto simp: parseData_def split: sum.splits if_splits)
  show "isEOF c'" using eof c' by simp
  have c1: "buffer c1 = buffer c" "pos c1 = pos c + 4"
    using readUInt32_Inr(1) [OF f(1)] by simp_all
  have c2: "buffer c2 = buffer c" "pos c2 = pos c + 12"
    using readUInt64_Inr(1) [OF f(2)] c1 by simp_all
  have cnt: "count = playerCountField c"
    using readUInt32_Inr(3) [OF f(3)] c2 by (simp add: playerCountField_def)
  have c3: "buffer c3 = buffer c" "pos c3 = pos c + 16"
    using readUInt32_Inr(1) [OF f(3)] c2 by simp_all
  have c4: "buffer c4 = buffer c" "pos c4 = pos c + 16 + 24 * unat count"
    using readPlayers_Inr [OF p] c3 by simp_all
  have c5: "buffer c5 = buffer c" "pos c5 = pos c + 16 + 32 * unat count"
    using readSamples_Inr [OF s] c4 by simp_all
  from eof c5 have "length (buffer c) = pos c + 16 + 32 * unat count"
    by (simp add: isEOF_def)
  then show "sizeLeft c = 16 + 32 * unat (playerCountField c)"
    by (simp add: sizeLeft_def cnt)
qed

text \<open>
  C2.  When the bytes left in the cursor are a beat-info frame in the layout above for
  fewer than \<open>2\<^sup>3\<^sup>2\<close> players, and more than 72 of them are left, \<open>parseData\<close>
  returns the message with that id, clock, player count and the per-player values in
  order, and the cursor is at the end of the buffer.  With 72 bytes or fewer left it
  fails its first assertion; and whenever the number of bytes left is not the
  \<open>16 + 32 * playerCount\<close> the layout takes for the \<open>playerCount\<close> field of the frame,
  it returns an error.
\<close>

theorem parseData_decodes_frame:
  "(drop (pos c) (buffer c) = beatFrame mid clk vs \<and> length vs < 2 ^ 32 \<and> 72 < sizeLeft c
      \<longrightarrow> parseData c =
            Inr (\<lparr>msg_id = mid,
                  message = Some \<lparr>clock = clk, playerCount = length vs,
                                  player = map playerOf vs\<rparr>\<rparr>,
                 c\<lparr>pos := length (buffer c)\<rparr>)
          \<and> isEOF (c\<lparr>pos := length (buffer c)\<rparr>))
   \<and> (sizeLeft c \<le> 72 \<longrightarrow> parseData c = Inl AssertionError)
   \<and> (sizeLeft c \<noteq> 16 + 32 * unat (playerCountField c) \<longrightarrow> (\<exists>e. parseData c = Inl e))"
proof (intro conjI impI)
  assume "drop (pos c) (buffer c) = beatFrame mid clk vs \<and> length vs < 2 ^ 32
    \<and> 72 < sizeLeft c"
  then show "parseData c =
            Inr (\<lparr>msg_id = mid,
                  message = Some \<lparr>clock = clk, playerCount = length vs,
                                  player = map playerOf vs\<rparr>\<rparr>,
                 c\<lparr>pos := length (buffer c)\<rparr>)"
    by (intro parseData_beatFrame) simp_all
next
  show "isEOF (c\<lparr>pos := length (buffer c)\<rparr>)" by (simp add: isEOF_def)
next
  assume "sizeLeft c \<le> 72"
  then show "parseData c = Inl AssertionError" by (simp add: parseData_def)
next
  assume ne: "sizeLeft c \<noteq> 16 + 32 * unat (playerCountField c)"
  show "\<exists>e. parseData c = Inl e"
  proof (cases "parseData c")
    case (Inl e)
    then show ?thesis by blast
  next
    case (Inr r)
    obtain msg c' where "r = (msg, c')" by (cases r) auto
    with Inr ne parseData_Inr(2) [of c msg c'] show ?thesis by simp
  qed
qed

lemma length_ex_frame: "length ex_frame = 80"
  by (simp add: ex_frame_def length_beatFrame)

theorem parseData_decodes_frame_witness:
  "drop 0 ex_frame = beatFrame 5 1000 [(1, 2, 3, 4), (5, 6, 7, 8)]
   \<and> length [(1, 2, 3, 4), (5, 6, 7, 8) :: playerValues] < 2 ^ 32
   \<and> 72 < sizeLeft \<lparr>buffer = ex_frame, pos = 0\<rparr>
   \<and> parseData \<lparr>buffer = ex_frame, pos = 0\<rparr> =
       Inr (\<lparr>msg_id = 5,
             message = Some \<lparr>clock = 1000, playerCount = 2,
               player = [\<lparr>beat = 1, totalBeats = 2, BPM = 3, samples = Some 4\<rparr>,
                         \<lparr>beat = 5, totalBeats = 6, BPM = 7, samples = Some 8\<rparr>]\<rparr>\<rparr>,
            \<lparr>buffer = ex_frame, pos = 80\<rparr>)
   \<and> sizeLeft \<lparr>buffer = take 72 ex_frame, pos = 0\<rparr> \<le> 72
   \<and> parseData \<lparr>buffer = take 72 ex_frame, pos = 0\<rparr> = Inl AssertionError
   \<and> sizeLeft \<lparr>buffer = ex_frame @ [0], pos = 0\<rparr>
        \<noteq> 16 + 32 * unat (playerCountField \<lparr>buffer = ex_frame @ [0], pos = 0\<rparr>)
   \<and> (\<exists>e. parseData \<lparr>buffer = ex_frame @ [0], pos = 0\<rparr> = Inl e)"
proof -
  have pc: "playerCountField \<lparr>buffer = ex_frame @ [0], pos = 0\<rparr> = 2"
    by (simp add: playerCountField_def ex_frame_def beatFrame_def be32_def be64_def
        be_uint_def)
  have a: "parseData \<lparr>buffer = ex_frame, pos = 0\<rparr> =
       Inr (\<lparr>msg_id = 5,
             message = Some \<lparr>clock = 1000, playerCount = 2,
               player = [\<lparr>beat = 1, totalBeats = 2, BPM = 3, samples = Some 4\<rparr>,
                         \<lparr>beat = 5, totalBeats = 6, BPM = 7, samples = Some 8\<rparr>]\<rparr>\<rparr>,
            \<lparr>buffer = ex_frame, pos = 80\<rparr>)"
    using parseData_decodes_frame [of "\<lparr>buffer = ex_frame, pos = 0\<rparr>" 5 1000
        "[(1, 2, 3, 4), (5, 6, 7, 8)]"]
    by (simp add: sizeLeft_def length_ex_frame playerOf_def) (simp add: ex_frame_def)
  have b: "parseData \<lparr>buffer = take 72 ex_frame, pos = 0\<rparr> = Inl AssertionError"
    using parseData_decodes_frame [of "\<lparr>buffer = take 72 ex_frame, pos = 0\<rparr>"]
    by (simp add: sizeLeft_def length_ex_frame)
  have c: "\<exists>e. parseData \<lparr>buffer = ex_frame @ [0], pos = 0\<rparr> = Inl e"
    using parseData_decodes_frame [of "\<lparr>buffer = ex_frame @ [0], pos = 0\<rparr>"]
    by (simp add: sizeLeft_def length_ex_frame pc)
  from a b c show ?thesis
    by (simp add: sizeLeft_def length_ex_frame pc) (simp add: ex_frame_def)
qed

section \<open>Properties of StageLinqDevices\<close>

subsection \<open>The connect routine and the retry loop\<close>

lemma discoveryStatus_connectToPlayer [simp]:
  "discoveryStatus (snd (connectToPlayer net s connectionInfo)) = discoveryStatus s"
  by (simp add: connectToPlayer_def Let_def)

lemma connectCalls_connectToPlayer [simp]:
  "connectCalls (snd (connectToPlayer net s connectionInfo)) = Suc (connectCalls s)"
  by (simp add: connectToPlayer_def Let_def connectCalls_def)

text \<open>The loop changes the status of the announced identity only, to \<open>CONNECTED\<close> when
  it returns and to \<open>FAILED\<close> when it throws.\<close>

lemma discoveryStatus_retryLoop:
  "discoveryStatus (snd (retryLoop net connectionInfo attempt s)) =
     (discoveryStatus s)(deviceId connectionInfo \<mapsto>
        (case fst (retryLoop net connectionInfo attempt s) of
           Inr u \<Rightarrow> CONNECTED | Inl e \<Rightarrow> FAILED))"
proof (induction net connectionInfo attempt s rule: retryLoop.induct)
  case (1 net connectionInfo attempt s)
  show ?case
  proof (cases "attempt < maxRetries (options s)")
    case False
    then show ?thesis by (subst (1 2) retryLoop.simps) simp
  next
    case True
    obtain r s' where c: "connectToPlayer net s connectionInfo = (r, s')"
      by (cases "connectToPlayer net s connectionInfo") auto
    then have ds: "discoveryStatus s' = discoveryStatus s"
      using discoveryStatus_connectToPlayer [of net s connectionInfo] by simp
    show ?thesis
    proof (cases r)
      case (Inr u)
      with True c ds show ?thesis by (subst (1 2) retryLoop.simps) simp
    next
      case (Inl e)
      have "retryLoop net connectionInfo attempt s =
            retryLoop net connectionInfo (attempt + 1) (s'\<lparr>trace := trace s' @ [Sleep 500]\<rparr>)"
        using True c Inl by (subst retryLoop.simps) simp
      moreover note "1.IH" [OF True c [symmetric] Inl]
      ultimately show ?thesis using ds by simp
    qed
  qed
qed


lemma retryLoop_throws_FAILED:
  "fst (retryLoop net connectionInfo attempt s) = Inl e \<Longrightarrow>
   discoveryStatus (snd (retryLoop net connectionInfo attempt s)) (deviceId connectionInfo)
     = Some FAILED"
  by (simp add: discoveryStatus_retryLoop)

text \<open>When every attempt fails, the loop started at \<open>attempt\<close> calls the connect routine
  \<open>maxRetries - attempt\<close> times: \<open>maxRetries - 1\<close> times from \<open>attempt = 1\<close>.\<close>

lemma retryLoop_always_failing:
  assumes "\<And>s'. fst (connectToPlayer net s' connectionInfo) \<noteq> Inr ()"
  shows "fst (retryLoop net connectionInfo attempt s)
           = Inl (Error (''Could not connect to '' @ deviceId connectionInfo))
       \<and> connectCalls (snd (retryLoop net connectionInfo attempt s))
           = connectCalls s + nat (maxRetries (options s) - attempt)"
  using assms
proof (induction net connectionInfo attempt s rule: retryLoop.induct)
  case (1 net connectionInfo attempt s)
  show ?case
  proof (cases "attempt < maxRetries (options s)")
    case False
    then show ?thesis by (subst (1 2) retryLoop.simps) (simp add: connectCalls_def)
  next
    case True
    obtain r s' where c: "connectToPlayer net s connectionInfo = (r, s')"
      by (cases "connectToPlayer net s connectionInfo") auto
    with "1.prems" [of s] obtain e where r: "r = Inl e" by (cases r) auto
    have calls: "connectCalls s' = Suc (connectCalls s)" and opts: "options s' = options s"
      using connectCalls_connectToPlayer [of net s connectionInfo]
        options_connectToPlayer [of net s connectionInfo] c by simp_all
    let ?s'' = "s'\<lparr>trace := trace s' @ [Sleep 500]\<rparr>"
    have step: "retryLoop net connectionInfo attempt s
        = retryLoop net connectionInfo (attempt + 1) ?s''"
      using True c r by (subst retryLoop.simps) simp
    have "connectCalls ?s'' = Suc (connectCalls s)"
      using calls by (simp add: connectCalls_def)
    moreover have "options ?s'' = options s" using opts by simp
    moreover note "1.IH" [OF True c [symmetric] r "1.prems"]
    ultimately show ?thesis
      unfolding step using True by (simp add: nat_diff_distrib)
  qed
qed

subsection \<open>No-op announcements\<close>

lemma handleDevice_guarded:
  "isConnected s connectionInfo \<or> isConnecting s connectionInfo
     \<or> isFailed s connectionInfo \<or> isIgnored s connectionInfo \<Longrightarrow>
   handleDevice net s connectionInfo = (Inr (), s)"
  by (simp add: handleDevice_def)

text \<open>The identity string is a function of address, port, source and software name.\<close>

lemma deviceId_cong:
  "address a = address b \<Longrightarrow> port a = port b \<Longrightarrow> source a = source b \<Longrightarrow>
   name (software a) = name (software b) \<Longrightarrow> deviceId a = deviceId b"
  by (simp add: deviceId_def)

text \<open>
  C4.  When the identity string of an announcement is mapped to \<open>CONNECTED\<close>,
  \<open>CONNECTING\<close> or \<open>FAILED\<close>, or the announcement is ignored, \<open>handleDevice\<close> returns
  with the state unchanged: no call of the connect routine is recorded, and
  \<open>discoveryStatus\<close> and \<open>devices\<close> are as before.  In particular an announcement with
  the same address, port, source and software name as one that is \<open>CONNECTING\<close> is a
  no-op.
\<close>

theorem handleDevice_noop:
  "(discoveryStatus s (deviceId connectionInfo) = Some CONNECTED
      \<or> discoveryStatus s (deviceId connectionInfo) = Some CONNECTING
      \<or> discoveryStatus s (deviceId connectionInfo) = Some FAILED
      \<or> isIgnored s connectionInfo
    \<longrightarrow> handleDevice net s connectionInfo = (Inr (), s))
   \<and> (address second = address connectionInfo \<and> port second = port connectionInfo
        \<and> source second = source connectionInfo
        \<and> name (software second) = name (software connectionInfo)
        \<and> discoveryStatus s (deviceId connectionInfo) = Some CONNECTING
    \<longrightarrow> handleDevice net s second = (Inr (), s))"
proof (intro conjI impI)
  assume "discoveryStatus s (deviceId connectionInfo) = Some CONNECTED
      \<or> discoveryStatus s (deviceId connectionInfo) = Some CONNECTING
      \<or> discoveryStatus s (deviceId connectionInfo) = Some FAILED
      \<or> isIgnored s connectionInfo"
  then show "handleDevice net s connectionInfo = (Inr (), s)"
    by (intro handleDevice_guarded) (auto simp: isConnected_def isConnecting_def isFailed_def)
next
  assume h: "address second = address connectionInfo \<and> port second = port connectionInfo
        \<and> source second = source connectionInfo
        \<and> name (software second) = name (software connectionInfo)
        \<and> discoveryStatus s (deviceId connectionInfo) = Some CONNECTING"
  then have "deviceId second = deviceId connectionInfo" by (intro deviceId_cong) simp_all
  with h have "isConnecting s second" by (simp add: isConnecting_def)
  then show "handleDevice net s second = (Inr (), s)" by (intro handleDevice_guarded) simp
qed

text \<open>
  C5 (as amended).  When \<open>handleDevice\<close> has thrown for an announcement, its identity is
  \<open>FAILED\<close>, and a later call of \<open>handleDevice\<close> for the same announcement, on any
  network, returns with the state unchanged: the entry stays \<open>FAILED\<close> and the connect
  routine is not called.
\<close>

theorem handleDevice_after_FAILED:
  assumes "handleDevice net s connectionInfo = (Inl e, s')"
  shows "discoveryStatus s' (deviceId connectionInfo) = Some FAILED
       \<and> handleDevice net' s' connectionInfo = (Inr (), s')"
proof -
  let ?s0 = "s\<lparr>discoveryStatus := (discoveryStatus s)(deviceId connectionInfo \<mapsto> CONNECTING)\<rparr>"
  have loop: "handleDevice net s connectionInfo = retryLoop net connectionInfo 1 ?s0"
    using assms by (auto simp: handleDevice_def split: if_splits)
  with assms have "fst (retryLoop net connectionInfo 1 ?s0) = Inl e"
    and "snd (retryLoop net connectionInfo 1 ?s0) = s'" by simp_all
  with retryLoop_throws_FAILED [of net connectionInfo 1 ?s0 e]
  have failed: "discoveryStatus s' (deviceId connectionInfo) = Some FAILED" by simp
  then have "isFailed s' connectionInfo" by (simp add: isFailed_def)
  then have "handleDevice net' s' connectionInfo = (Inr (), s')"
    by (intro handleDevice_guarded) simp
  with failed show ?thesis by simp
qed


subsection \<open>Evaluations on the example network\<close>

lemma ex_info_not_ignored: "\<not> isIgnored ex_fresh ex_info"
  by (simp add: isIgnored_def ex_fresh_def ex_info_def ex_options_def newStageLinqDevices_def
      canonicalize_def char_of_def bit_Suc_0_iff)

lemma handleDevice_fresh:
  "handleDevice net ex_fresh ex_info =
    retryLoop net ex_info 1
      (ex_fresh\<lparr>discoveryStatus := (discoveryStatus ex_fresh)(deviceId ex_info \<mapsto> CONNECTING)\<rparr>)"
  using ex_info_not_ignored
  by (simp add: handleDevice_def isConnected_def isConnecting_def isFailed_def)
     (simp add: ex_fresh_def newStageLinqDevices_def)

lemma handleDevice_ex_failing:
  "handleDevice ex_failing ex_fresh ex_info =
     (Inl (Error (''Could not connect to '' @ deviceId ex_info)), ex_exhausted)"
  unfolding handleDevice_fresh
  by (simp add: retryLoop.simps connectToPlayer_def connectCalls_def ex_failing_def
      ex_fresh_def newStageLinqDevices_def ex_options_def Let_def ex_exhausted_def)

lemma handleDevice_ex_reachable:
  "handleDevice ex_reachable ex_fresh ex_info = (Inr (), ex_connected)"
  unfolding handleDevice_fresh
  by (simp add: retryLoop.simps connectToPlayer_def connectCalls_def ex_reachable_def
      ex_fresh_def newStageLinqDevices_def ex_options_def Let_def ex_connected_def
      ex_device_def)
     (simp add: ex_info_def)

text \<open>
  C3.  With \<open>maxRetries = 3\<close> and a connect routine that always fails, \<open>handleDevice\<close>
  calls the connect routine twice, for \<open>attempt = 1\<close> and \<open>attempt = 2\<close>, then marks
  the identity \<open>FAILED\<close> and throws.
\<close>

theorem handleDevice_maxRetries_3:
  "maxRetries (options ex_fresh) = 3
   \<and> fst (handleDevice ex_failing ex_fresh ex_info)
       = Inl (Error (''Could not connect to '' @ deviceId ex_info))
   \<and> trace (snd (handleDevice ex_failing ex_fresh ex_info))
       = [Connect ex_info, Sleep 500, Connect ex_info, Sleep 500]
   \<and> connectCalls (snd (handleDevice ex_failing ex_fresh ex_info)) = 2
   \<and> discoveryStatus (snd (handleDevice ex_failing ex_fresh ex_info)) (deviceId ex_info)
       = Some FAILED"
  by (simp add: handleDevice_ex_failing)
     (simp add: ex_exhausted_def ex_fresh_def ex_options_def newStageLinqDevices_def
        connectCalls_def)

theorem handleDevice_noop_witness:
  "discoveryStatus ex_connecting (deviceId ex_info) = Some CONNECTING
   \<and> handleDevice ex_reachable ex_connecting ex_info = (Inr (), ex_connecting)
   \<and> address ex_again = address ex_info \<and> port ex_again = port ex_info
   \<and> source ex_again = source ex_info
   \<and> name (software ex_again) = name (software ex_info)
   \<and> ex_again \<noteq> ex_info
   \<and> handleDevice ex_reachable ex_connecting ex_again = (Inr (), ex_connecting)"
  using handleDevice_noop [of ex_connecting ex_info ex_reachable ex_again]
  by (simp add: ex_connecting_def ex_again_def) (simp add: ex_info_def)

theorem handleDevice_after_FAILED_witness:
  "handleDevice ex_failing ex_fresh ex_info =
     (Inl (Error (''Could not connect to '' @ deviceId ex_info)), ex_exhausted)
   \<and> discoveryStatus ex_exhausted (deviceId ex_info) = Some FAILED
   \<and> handleDevice ex_reachable ex_exhausted ex_info = (Inr (), ex_exhausted)"
  using handleDevice_after_FAILED [OF handleDevice_ex_failing, of ex_reachable]
  by (simp add: handleDevice_ex_failing)

text \<open>
  C5 as stated fails: on a network where every connection succeeds, an announcement
  of a \<open>FAILED\<close> identity leaves the entry \<open>FAILED\<close> and records no call of the connect
  routine, while the same announcement to an orchestrator that has not seen the
  identity connects it.
\<close>

theorem handleDevice_FAILED_counterexample:
  "discoveryStatus ex_exhausted (deviceId ex_info) = Some FAILED
   \<and> discoveryStatus (snd (handleDevice ex_reachable ex_exhausted ex_info)) (deviceId ex_info)
       \<noteq> Some CONNECTING
   \<and> discoveryStatus (snd (handleDevice ex_reachable ex_exhausted ex_info)) (deviceId ex_info)
       = Some FAILED
   \<and> trace (snd (handleDevice ex_reachable ex_exhausted ex_info)) = trace ex_exhausted
   \<and> discoveryStatus (snd (handleDevice ex_reachable ex_fresh ex_info)) (deviceId ex_info)
       = Some CONNECTED"
proof -
  have "isFailed ex_exhausted ex_info"
    by (simp add: isFailed_def ex_exhausted_def)
  then have "handleDevice ex_reachable ex_exhausted ex_info = (Inr (), ex_exhausted)"
    by (intro handleDevice_guarded) simp
  then show ?thesis
    by (simp add: handleDevice_ex_reachable) (simp add: ex_exhausted_def ex_connected_def)
qed

subsection \<open>The ignore predicate\<close>

lemma of_char_canonicalize:
  "(of_char (canonicalize ch) :: nat) =
     (if 97 \<le> (of_char ch :: nat) \<and> (of_char ch :: nat) \<le> 122
      then of_char ch - 32 else of_char ch)"
proof -
  define n where "n = (of_char ch :: nat)"
  have "(n - 32) mod 256 = n - 32" if "n \<le> 122"
    using that by (intro mod_less) arith
  then show ?thesis
    by (auto simp add: canonicalize_def simp flip: n_def)
qed

lemma of_char_lowerASCII:
  "(of_char (lowerASCII ch) :: nat) =
     (if 65 \<le> (of_char ch :: nat) \<and> (of_char ch :: nat) \<le> 90
      then of_char ch + 32 else of_char ch)"
proof -
  define n where "n = (of_char ch :: nat)"
  have "(n + 32) mod 256 = n + 32" if "n \<le> 90"
    using that by (intro mod_less) arith
  then show ?thesis
    by (auto simp add: lowerASCII_def simp flip: n_def)
qed

lemma canonicalize_eq_iff:
  "canonicalize a = canonicalize b \<longleftrightarrow> lowerASCII a = lowerASCII b"
proof -
  define m n where mn: "m = (of_char a :: nat)" "n = (of_char b :: nat)"
  have "canonicalize a = canonicalize b \<longleftrightarrow>
        (of_char (canonicalize a) :: nat) = of_char (canonicalize b)" by simp
  also have "\<dots> \<longleftrightarrow> (if 97 \<le> m \<and> m \<le> 122 then m - 32 else m)
      = (if 97 \<le> n \<and> n \<le> 122 then n - 32 else n)"
    unfolding of_char_canonicalize mn ..
  also have "\<dots> \<longleftrightarrow> (if 65 \<le> m \<and> m \<le> 90 then m + 32 else m)
      = (if 65 \<le> n \<and> n \<le> 90 then n + 32 else n)"
    by (simp split: if_splits) arith
  also have "\<dots> \<longleftrightarrow> (of_char (lowerASCII a) :: nat) = of_char (lowerASCII b)"
    unfolding of_char_lowerASCII mn ..
  also have "\<dots> \<longleftrightarrow> lowerASCII a = lowerASCII b" by simp
  finally show ?thesis .
qed

lemma testPrefixIgnoreCase_iff:
  "testPrefixIgnoreCase p str \<longleftrightarrow> caseInsensitivePrefix p str"
  by (induction p str rule: testPrefixIgnoreCase.induct)
     (auto simp: caseInsensitivePrefix_def canonicalize_eq_iff)


text \<open>
  C6.  \<open>isIgnored\<close> holds exactly when the source is the configured
  \<open>actingAs.source\<close>, or the software name is \<open>OfflineAnalyzer\<close>, has the
  case-insensitive prefix \<open>SoundSwitch\<close> or \<open>Resolume\<close>, or is \<open>JM08\<close> or \<open>SSS0\<close>; and an
  ignored announcement leaves the state unchanged whatever \<open>discoveryStatus\<close> holds, so
  the connect routine is not called.
\<close>

theorem isIgnored_iff:
  "(isIgnored s dev \<longleftrightarrow>
      source dev = actingAs_source (options s)
    \<or> name (software dev) = ''OfflineAnalyzer''
    \<or> caseInsensitivePrefix ''SoundSwitch'' (name (software dev))
    \<or> caseInsensitivePrefix ''Resolume'' (name (software dev))
    \<or> name (software dev) = ''JM08''
    \<or> name (software dev) = ''SSS0'')
   \<and> (isIgnored s dev \<longrightarrow>
        handleDevice net s dev = (Inr (), s)
        \<and> connectCalls (snd (handleDevice net s dev)) = connectCalls s)"
proof (intro conjI impI)
  show "isIgnored s dev \<longleftrightarrow>
      source dev = actingAs_source (options s)
    \<or> name (software dev) = ''OfflineAnalyzer''
    \<or> caseInsensitivePrefix ''SoundSwitch'' (name (software dev))
    \<or> caseInsensitivePrefix ''Resolume'' (name (software dev))
    \<or> name (software dev) = ''JM08''
    \<or> name (software dev) = ''SSS0''"
    unfolding isIgnored_def testPrefixIgnoreCase_iff ..
next
  assume "isIgnored s dev"
  then show "handleDevice net s dev = (Inr (), s)"
    by (intro handleDevice_guarded) simp
  then show "connectCalls (snd (handleDevice net s dev)) = connectCalls s" by simp
qed

theorem isIgnored_iff_witness:
  "isIgnored ex_fresh ex_soundswitch
   \<and> caseInsensitivePrefix ''SoundSwitch'' (name (software ex_soundswitch))
   \<and> handleDevice ex_reachable ex_fresh ex_soundswitch = (Inr (), ex_fresh)
   \<and> connectCalls (snd (handleDevice ex_reachable ex_fresh ex_soundswitch)) = 0
   \<and> \<not> isIgnored ex_fresh ex_info"
proof -
  have p: "caseInsensitivePrefix ''SoundSwitch'' (name (software ex_soundswitch))"
    by (simp add: caseInsensitivePrefix_def ex_soundswitch_def lowerASCII_def
        char_of_def bit_Suc_0_iff)
  note w = isIgnored_iff [of ex_fresh ex_soundswitch ex_reachable]
  from w p have i: "isIgnored ex_fresh ex_soundswitch" by simp
  with w have h: "handleDevice ex_reachable ex_fresh ex_soundswitch = (Inr (), ex_fresh)"
    and c: "connectCalls (snd (handleDevice ex_reachable ex_fresh ex_soundswitch))
      = connectCalls ex_fresh" by simp_all
  have "connectCalls ex_fresh = 0"
    by (simp add: connectCalls_def ex_fresh_def newStageLinqDevices_def)
  with p i h c ex_info_not_ignored show ?thesis by simp
qed

subsection \<open>downloadFile and disconnectAll\<close>

text \<open>
  C8.  For an address that is a key of \<open>devices\<close>, \<open>downloadFile\<close> returns what
  \<open>getFile\<close> of that device's file-transfer service returns for the path, the file or
  the error, and the request is recorded; for an address that is not a key it throws
  a \<open>TypeError\<close>.
\<close>

theorem downloadFile_tracked:
  "(map_of (devices s) ipAddress = Some dev \<longrightarrow>
      downloadFile getFile s ipAddress path =
        (getFile (fileTransferService dev) path,
         s\<lparr>trace := trace s @ [GetFile (fileTransferService dev) path]\<rparr>))
   \<and> (map_of (devices s) ipAddress = None \<longrightarrow>
      downloadFile getFile s ipAddress path = (Inl TypeError, s))"
  by (simp add: downloadFile_def)

theorem downloadFile_tracked_witness:
  "map_of (devices ex_connected) ''192.168.1.5'' = Some ex_device
   \<and> fst (downloadFile ex_getFile ex_connected ''192.168.1.5'' ''/Engine Library/m.db'')
       = Inr [1, 2, 3]
   \<and> map_of (devices ex_connected) ''192.168.1.9'' = None
   \<and> downloadFile ex_getFile ex_connected ''192.168.1.9'' ''/Engine Library/m.db''
       = (Inl TypeError, ex_connected)"
proof -
  have a: "map_of (devices ex_connected) ''192.168.1.5'' = Some ex_device"
    and b: "map_of (devices ex_connected) ''192.168.1.9'' = None"
    by (simp_all add: ex_connected_def)
  from a b
    downloadFile_tracked [of ex_connected "''192.168.1.5''" ex_device ex_getFile
      "''/Engine Library/m.db''"]
    downloadFile_tracked [of ex_connected "''192.168.1.9''" ex_device ex_getFile
      "''/Engine Library/m.db''"]
  show ?thesis by (simp add: ex_getFile_def)
qed

text \<open>
  C10.  No operation removes an entry of \<open>discoveryStatus\<close>: \<open>handleDevice\<close> keeps every
  key and changes at most the entry of the announced identity, \<open>disconnectAll\<close> and
  \<open>downloadFile\<close> leave the map as it is.  So after \<open>disconnectAll\<close> an identity that
  was \<open>CONNECTED\<close> still is, and an announcement of it is a no-op.
\<close>

theorem discoveryStatus_never_shrinks:
  "dom (discoveryStatus s) \<subseteq> dom (discoveryStatus (snd (handleDevice net s connectionInfo)))
   \<and> (\<forall>k. k \<noteq> deviceId connectionInfo \<longrightarrow>
         discoveryStatus (snd (handleDevice net s connectionInfo)) k = discoveryStatus s k)
   \<and> discoveryStatus (disconnectAll s) = discoveryStatus s
   \<and> discoveryStatus (snd (downloadFile getFile s ipAddress path)) = discoveryStatus s
   \<and> (discoveryStatus s (deviceId connectionInfo) = Some CONNECTED \<longrightarrow>
        discoveryStatus (disconnectAll s) (deviceId connectionInfo) = Some CONNECTED
        \<and> handleDevice net (disconnectAll s) connectionInfo = (Inr (), disconnectAll s))"
proof -
  let ?s0 = "s\<lparr>discoveryStatus := (discoveryStatus s)(deviceId connectionInfo \<mapsto> CONNECTING)\<rparr>"
  have other: "discoveryStatus (snd (handleDevice net s connectionInfo)) k = discoveryStatus s k"
    if "k \<noteq> deviceId connectionInfo" for k
    using that by (simp add: handleDevice_def discoveryStatus_retryLoop)
  have "k \<in> dom (discoveryStatus (snd (handleDevice net s connectionInfo)))"
    if "k \<in> dom (discoveryStatus s)" for k
  proof (cases "k = deviceId connectionInfo")
    case False
    with that other [OF False] show ?thesis by (simp add: dom_def)
  next
    case True
    with that show ?thesis
      by (auto simp add: handleDevice_def discoveryStatus_retryLoop)
  qed
  then have dom: "dom (discoveryStatus s)
      \<subseteq> dom (discoveryStatus (snd (handleDevice net s connectionInfo)))" by blast
  have dis: "discoveryStatus (disconnectAll s) = discoveryStatus s"
    by (simp add: disconnectAll_def)
  have dl: "discoveryStatus (snd (downloadFile getFile s ipAddress path)) = discoveryStatus s"
    by (simp add: downloadFile_def split: option.splits)
  have again: "handleDevice net (disconnectAll s) connectionInfo = (Inr (), disconnectAll s)"
    if "discoveryStatus s (deviceId connectionInfo) = Some CONNECTED"
    using that dis by (intro handleDevice_guarded) (simp add: isConnected_def)
  from dom other dis dl again show ?thesis by simp
qed

theorem discoveryStatus_never_shrinks_witness:
  "discoveryStatus ex_connected (deviceId ex_info) = Some CONNECTED
   \<and> trace (disconnectAll ex_connected)
       = trace ex_connected @ [Disconnect \<lparr>nd_info = ex_info, nd_serial = 0\<rparr>]
   \<and> discoveryStatus (disconnectAll ex_connected) (deviceId ex_info) = Some CONNECTED
   \<and> handleDevice ex_reachable (disconnectAll ex_connected) ex_info
       = (Inr (), disconnectAll ex_connected)"
proof -
  have a: "discoveryStatus ex_connected (deviceId ex_info) = Some CONNECTED"
    by (simp add: ex_connected_def)
  have t: "trace (disconnectAll ex_connected)
       = trace ex_connected @ [Disconnect \<lparr>nd_info = ex_info, nd_serial = 0\<rparr>]"
    by (simp add: disconnectAll_def ex_connected_def ex_device_def)
  from a t discoveryStatus_never_shrinks [of ex_connected ex_reachable ex_info]
  show ?thesis by simp
qed

section \<open>Properties of the Devices registry\<close>

subsection \<open>The identity string\<close>

lemma toHex_Nil [simp]: "toHex [] = []"
  by (simp add: toHex_def)

lemma toHex_Cons:
  "toHex (b # bs) = hexDigit (unat b div 16) # hexDigit (unat b mod 16) # toHex bs"
  by (simp add: toHex_def)

lemma toHex_append: "toHex (xs @ ys) = toHex xs @ toHex ys"
  by (simp add: toHex_def)

lemma length_toHex: "length (toHex bs) = 2 * length bs"
  by (induction bs) (simp_all add: toHex_Cons)

lemma take_toHex: "take (2 * n) (toHex bs) = toHex (take n bs)"
proof (induction bs arbitrary: n)
  case Nil
  show ?case by simp
next
  case (Cons b bs)
  show ?case
  proof (cases n)
    case 0
    then show ?thesis by simp
  next
    case (Suc k)
    with Cons.IH [of k] show ?thesis by (simp add: toHex_Cons)
  qed
qed

lemma drop_toHex: "drop (2 * n) (toHex bs) = toHex (drop n bs)"
proof (induction bs arbitrary: n)
  case Nil
  show ?case by simp
next
  case (Cons b bs)
  show ?case
  proof (cases n)
    case 0
    then show ?thesis by simp
  next
    case (Suc k)
    with Cons.IH [of k] show ?thesis by (simp add: toHex_Cons)
  qed
qed

text \<open>The groups the regular expression captures are the groups of bytes of the
  canonical string.\<close>

lemma dashed_toHex: "dashed (toHex tok) = uuidString tok"
proof -
  have t: "take 8 (toHex tok) = toHex (take 4 tok)"
    "take 4 (toHex bs) = toHex (take 2 bs)"
    "take 12 (toHex bs) = toHex (take 6 bs)" for bs
    using take_toHex [of 4 tok] take_toHex [of 2 bs] take_toHex [of 6 bs] by simp_all
  have d: "drop 8 (toHex tok) = toHex (drop 4 tok)"
    "drop 12 (toHex tok) = toHex (drop 6 tok)"
    "drop 16 (toHex tok) = toHex (drop 8 tok)"
    "drop 20 (toHex tok) = toHex (drop 10 tok)"
    using drop_toHex [of 4 tok] drop_toHex [of 6 tok] drop_toHex [of 8 tok]
      drop_toHex [of 10 tok] by simp_all
  show ?thesis by (simp add: dashed_def uuidString_def t d)
qed

lemma hexDigit_in: "hexDigit n \<in> set ''0123456789abcdef''"
  unfolding hexDigit_def by (rule nth_mem) simp

lemma hexDigit_not_dash: "hexDigit n \<noteq> CHR ''-''"
  using hexDigit_in [of n] by auto

lemma hexDigit_inj:
  assumes "m < 16" "n < 16" "hexDigit m = hexDigit n"
  shows "m = n"
proof -
  have "distinct ''0123456789abcdef''" by simp
  moreover have "m < length ''0123456789abcdef''" "n < length ''0123456789abcdef''"
    using assms by simp_all
  ultimately show ?thesis
    using assms by (simp add: hexDigit_def nth_eq_iff_index_eq)
qed

lemma toHex_inj: "toHex xs = toHex ys \<Longrightarrow> xs = ys"
proof (induction xs arbitrary: ys)
  case Nil
  then show ?case by (cases ys) (simp_all add: toHex_Cons)
next
  case (Cons x xs)
  then obtain y ys' where ys: "ys = y # ys'" by (cases ys) (auto simp: toHex_Cons)
  with Cons.prems have hi: "hexDigit (unat x div 16) = hexDigit (unat y div 16)"
    and lo: "hexDigit (unat x mod 16) = hexDigit (unat y mod 16)"
    and rest: "toHex xs = toHex ys'"
    by (simp_all add: toHex_Cons)
  have bx: "unat x < 256" using unsigned_less [of x, where 'a = nat] by simp
  have bz: "unat y < 256" using unsigned_less [of y, where 'a = nat] by simp
  have "unat x div 16 = unat y div 16"
    using bx bz by (intro hexDigit_inj [OF _ _ hi]) simp_all
  moreover have "unat x mod 16 = unat y mod 16"
    by (intro hexDigit_inj [OF _ _ lo]) simp_all
  ultimately have "unat x = unat y"
    by (metis div_mult_mod_eq)
  then have "x = y" by (rule unsigned_word_eqI)
  with Cons.IH [OF rest] ys show ?case by simp
qed

lemma filter_toHex: "filter (\<lambda>ch. ch \<noteq> CHR ''-'') (toHex bs) = toHex bs"
  by (induction bs) (simp_all add: toHex_Cons hexDigit_not_dash)

lemma take16_groups:
  "take 4 tok @ take 2 (drop 4 tok) @ take 2 (drop 6 tok) @ take 2 (drop 8 tok)
     @ take 6 (drop 10 tok) = take 16 tok"
proof -
  have "take 16 tok = take 4 tok @ take 12 (drop 4 tok)"
    using take_add [of 4 12 tok] by simp
  also have "take 12 (drop 4 tok) = take 2 (drop 4 tok) @ take 10 (drop 6 tok)"
    using take_add [of 2 10 "drop 4 tok"] by simp
  also have "take 10 (drop 6 tok) = take 2 (drop 6 tok) @ take 8 (drop 8 tok)"
    using take_add [of 2 8 "drop 6 tok"] by simp
  also have "take 8 (drop 8 tok) = take 2 (drop 8 tok) @ take 6 (drop 10 tok)"
    using take_add [of 2 6 "drop 8 tok"] by simp
  finally show ?thesis by simp
qed

text \<open>Without its dashes the canonical string is the hexadecimal string of the
  first 16 bytes of the token.\<close>

lemma uuidString_digits:
  "filter (\<lambda>ch. ch \<noteq> CHR ''-'') (uuidString tok) = toHex (take 16 tok)"
proof -
  have "filter (\<lambda>ch. ch \<noteq> CHR ''-'') (uuidString tok)
      = toHex (take 4 tok @ take 2 (drop 4 tok) @ take 2 (drop 6 tok) @ take 2 (drop 8 tok)
          @ take 6 (drop 10 tok))"
    by (simp add: uuidString_def filter_toHex toHex_append)
  then show ?thesis by (simp only: take16_groups)
qed

lemma uuidString_inj:
  assumes "length tok = 16" "length tok' = 16" "uuidString tok = uuidString tok'"
  shows "tok = tok'"
proof -
  have "toHex (take 16 tok) = toHex (take 16 tok')"
    using assms(3) uuidString_digits [of tok] uuidString_digits [of tok'] by simp
  then have "take 16 tok = take 16 tok'" by (rule toHex_inj)
  with assms(1,2) show ?thesis by simp
qed

lemma uuidString_format:
  assumes "length tok = 16"
  shows "length (uuidString tok) = 36"
    and "map (\<lambda>i. uuidString tok ! i) [8, 13, 18, 23] = ''----''"
proof -
  show "length (uuidString tok) = 36"
    using assms by (simp add: uuidString_def length_toHex)
  have l: "length (toHex (take 4 tok)) = 8" "length (toHex (take 2 (drop 4 tok))) = 4"
    "length (toHex (take 2 (drop 6 tok))) = 4" "length (toHex (take 2 (drop 8 tok))) = 4"
    using assms by (simp_all add: length_toHex)
  show "map (\<lambda>i. uuidString tok ! i) [8, 13, 18, 23] = ''----''"
    by (simp add: uuidString_def nth_append l)
qed


subsection \<open>Lookup and insertion\<close>

lemma tokenString_16: "length tok = 16 \<Longrightarrow> tokenString tok = Inr (uuidString tok)"
  by (simp add: tokenString_def Let_def length_toHex dashed_toHex)

text \<open>The key under which an identity argument is looked up.\<close>

lemma hasDevice_key:
  assumes "length tok = 16"
    and "did = IdString (uuidString tok) \<or> did = IdObject (newDeviceId tok)
      \<or> did = IdArray tok"
  shows "hasDevice r did = Inr (devs r (uuidString tok) \<noteq> None)"
    and "device r did = Inr (devs r (uuidString tok))"
  using assms by (auto simp: hasDevice_def device_def newDeviceId_def tokenString_16)

lemma fst_addDevice: "fst (addDevice r i) = newDevice i"
  by (simp add: addDevice_def Let_def)

lemma devs_addDevice:
  "devs (snd (addDevice r i)) = (devs r)(uuidString (token i) \<mapsto> newDevice i)"
  by (simp add: addDevice_def Let_def newDevice_def newDeviceId_def)

lemma addDevices_append:
  "addDevices r (xs @ ys) = addDevices (addDevices r xs) ys"
  by (simp add: addDevices_def)

lemma devs_addDevices_other:
  "\<forall>i\<in>set infos. uuidString (token i) \<noteq> key \<Longrightarrow> devs (addDevices r infos) key = devs r key"
proof (induction infos arbitrary: r)
  case Nil
  show ?case by (simp add: addDevices_def)
next
  case (Cons i infos)
  have "addDevices r (i # infos) = addDevices (snd (addDevice r i)) infos"
    by (simp add: addDevices_def)
  with Cons show ?case by (auto simp add: devs_addDevice)
qed

lemma devs_addDevices_last:
  assumes "\<forall>i'\<in>set post. uuidString (token i') \<noteq> uuidString (token i)"
  shows "devs (addDevices r (pre @ [i] @ post)) (uuidString (token i)) = Some (newDevice i)"
proof -
  have "addDevices r (pre @ [i] @ post)
      = addDevices (snd (addDevice (addDevices r pre) i)) post"
    by (simp add: addDevices_def)
  then show ?thesis
    using assms by (simp add: devs_addDevices_other devs_addDevice)
qed

subsection \<open>The polling loop\<close>

lemma getDevice_found:
  assumes "hasDevice (registry k) did = Inr True"
  shows "getDevice registry k did = Some (device (registry k) did)"
  using assms by (subst getDevice.simps) simp

lemma getDevice_wait:
  assumes "hasDevice (registry k) did = Inr False"
  shows "getDevice registry k did = getDevice registry (Suc k) did"
  using assms by (subst getDevice.simps) simp

lemma getDevice_polls:
  assumes "\<And>j. k \<le> j \<Longrightarrow> j < n \<Longrightarrow> hasDevice (registry j) did = Inr False"
    and "hasDevice (registry n) did = Inr True" and "k \<le> n"
  shows "getDevice registry k did = Some (device (registry n) did)"
  using assms
proof (induction "n - k" arbitrary: k)
  case 0
  then have "k = n" by simp
  with "0.prems"(2) show ?case by (simp add: getDevice_found)
next
  case (Suc m)
  then have lt: "k < n" by simp
  have "getDevice registry k did = getDevice registry (Suc k) did"
    using Suc.prems(1) [of k] lt by (intro getDevice_wait) simp
  also have "\<dots> = Some (device (registry n) did)"
    using Suc.hyps(2) Suc.prems lt by (intro Suc.hyps(1)) auto
  finally show ?case .
qed


lemma getDevice_never_aux:
  assumes "getDevice registry k did = Some y"
  shows "\<exists>j. hasDevice (registry j) did \<noteq> Inr False"
proof (rule getDevice.raw_induct [OF _ assms])
  fix f :: "(nat \<Rightarrow> Devices) \<Rightarrow> nat \<Rightarrow> deviceIdArg \<Rightarrow> (error + Device option) option"
  fix registry k did y
  assume ih: "\<And>registry k did y. f registry k did = Some y
      \<Longrightarrow> \<exists>j. hasDevice (registry j) did \<noteq> Inr False"
    and step: "(case hasDevice (registry k) did of
        Inl e \<Rightarrow> Some (Inl e)
      | Inr found \<Rightarrow>
          if \<not> found then f registry (Suc k) did
          else Some (device (registry k) did)) = Some y"
  show "\<exists>j. hasDevice (registry j) did \<noteq> Inr False"
  proof (cases "hasDevice (registry k) did = Inr False")
    case True
    with step have "f registry (Suc k) did = Some y" by simp
    then show ?thesis by (rule ih)
  next
    case False
    then show ?thesis by blast
  qed
qed

lemma getDevice_never:
  assumes "\<And>j. hasDevice (registry j) did = Inr False"
  shows "getDevice registry k did = None"
  using getDevice_never_aux [of registry k did] assms by (cases "getDevice registry k did") auto




text \<open>
  C7.  For a 16-byte token the canonical string has 36 characters with \<open>-\<close> at
  positions 8, 13, 18 and 23, its other characters are the hexadecimal digits of the
  token, and two 16-byte tokens with the same string are equal.  The canonical string,
  the \<open>DeviceId\<close> and the raw token are all looked up under that string.  \<open>addDevice\<close>
  stores the device it creates under the string of its token and changes no entry of
  another token.  Let \<open>added j\<close> be the announcements \<open>addDevice\<close> has been called for
  before the \<open>j\<close>-th test of \<open>getDevice\<close>, all with 16-byte tokens.  If none of them
  has the token before test \<open>n\<close> and at test \<open>n\<close> the announcement \<open>i\<close> is the last
  added with the token, the call returns the device created for \<open>i\<close>; if no
  announcement ever has the token, the call does not return.  More generally the call
  returns the device stored under the string at the first test that finds one.
\<close>

theorem getDevice_waits_for_device:
  assumes "length tok = 16"
    and "did = IdString (uuidString tok) \<or> did = IdObject (newDeviceId tok)
      \<or> did = IdArray tok"
  shows "length (uuidString tok) = 36
    \<and> map (\<lambda>p. uuidString tok ! p) [8, 13, 18, 23] = ''----''
    \<and> filter (\<lambda>ch. ch \<noteq> CHR ''-'') (uuidString tok) = toHex tok
    \<and> (length tok' = 16 \<and> uuidString tok' = uuidString tok \<longrightarrow> tok' = tok)
    \<and> hasDevice r did = Inr (devs r (uuidString tok) \<noteq> None)
    \<and> device r did = Inr (devs r (uuidString tok))
    \<and> (token i = tok \<longrightarrow>
          fst (addDevice r i) = newDevice i
          \<and> id_array (dev_deviceId (newDevice i)) = tok
          \<and> devs (snd (addDevice r i)) (uuidString tok) = Some (newDevice i))
    \<and> (length (token i) = 16 \<and> token i \<noteq> tok \<longrightarrow>
          devs (snd (addDevice r i)) (uuidString tok) = devs r (uuidString tok))
    \<and> ((\<forall>j\<le>n. \<forall>i'\<in>set (added j). length (token i') = 16)
          \<and> (\<forall>j<n. \<forall>i'\<in>set (added j). token i' \<noteq> tok)
          \<and> added n = pre @ [i] @ post \<and> token i = tok
          \<and> (\<forall>i'\<in>set post. token i' \<noteq> tok)
        \<longrightarrow> getDevice (\<lambda>j. addDevices newDevices (added j)) 0 did
              = Some (Inr (Some (newDevice i))))
    \<and> ((\<forall>j. \<forall>i'\<in>set (added j). length (token i') = 16 \<and> token i' \<noteq> tok)
        \<longrightarrow> getDevice (\<lambda>j. addDevices newDevices (added j)) 0 did = None)
    \<and> ((\<forall>j<n. devs (registry j) (uuidString tok) = None)
          \<and> devs (registry n) (uuidString tok) = Some d
        \<longrightarrow> getDevice registry 0 did = Some (Inr (Some d)))"
proof -
  note key = hasDevice_key [OF assms]
  have other: "uuidString (token i') \<noteq> uuidString tok"
    if "length (token i') = 16" "token i' \<noteq> tok" for i'
    using that uuidString_inj [OF that(1) assms(1)] by blast
  have absent: "devs (addDevices newDevices infos) (uuidString tok) = None"
    if "\<forall>i'\<in>set infos. length (token i') = 16 \<and> token i' \<noteq> tok" for infos
  proof -
    have "devs (addDevices newDevices infos) (uuidString tok)
        = devs newDevices (uuidString tok)"
      using that other by (intro devs_addDevices_other) blast
    then show ?thesis by (simp add: newDevices_def)
  qed
  have polls: "getDevice registry 0 did = Some (Inr (Some d))"
    if "\<forall>j<n. devs (registry j) (uuidString tok) = None"
      "devs (registry n) (uuidString tok) = Some d" for registry d
  proof -
    have "getDevice registry 0 did = Some (device (registry n) did)"
    proof (rule getDevice_polls)
      fix j assume "j < n"
      with that(1) show "hasDevice (registry j) did = Inr False"
        by (simp add: key(1))
    next
      from that(2) show "hasDevice (registry n) did = Inr True"
        by (simp add: key(1))
    qed simp
    with that(2) show ?thesis by (simp add: key(2))
  qed
  have fmt: "length (uuidString tok) = 36"
    "map (\<lambda>p. uuidString tok ! p) [8, 13, 18, 23] = ''----''"
    using uuidString_format [OF assms(1)] by simp_all
  have digits: "filter (\<lambda>ch. ch \<noteq> CHR ''-'') (uuidString tok) = toHex tok"
    using uuidString_digits [of tok] assms(1) by simp
  have inj: "tok' = tok" if "length tok' = 16 \<and> uuidString tok' = uuidString tok"
    using that uuidString_inj [OF _ assms(1), of tok'] by simp
  have ins: "fst (addDevice r i) = newDevice i
      \<and> id_array (dev_deviceId (newDevice i)) = tok
      \<and> devs (snd (addDevice r i)) (uuidString tok) = Some (newDevice i)"
    if "token i = tok"
    using that by (simp add: fst_addDevice devs_addDevice newDevice_def newDeviceId_def)
  have frame: "devs (snd (addDevice r i)) (uuidString tok) = devs r (uuidString tok)"
    if "length (token i) = 16 \<and> token i \<noteq> tok"
    using that other [of i] by (simp add: devs_addDevice)
  have waits: "getDevice (\<lambda>j. addDevices newDevices (added j)) 0 did
      = Some (Inr (Some (newDevice i)))"
    if h: "(\<forall>j\<le>n. \<forall>i'\<in>set (added j). length (token i') = 16)
          \<and> (\<forall>j<n. \<forall>i'\<in>set (added j). token i' \<noteq> tok)
          \<and> added n = pre @ [i] @ post \<and> token i = tok
          \<and> (\<forall>i'\<in>set post. token i' \<noteq> tok)"
  proof (rule polls)
    show "\<forall>j<n. devs (addDevices newDevices (added j)) (uuidString tok) = None"
    proof (intro allI impI)
      fix j assume "j < n"
      with h have "\<forall>i'\<in>set (added j). length (token i') = 16 \<and> token i' \<noteq> tok"
        by (metis less_imp_le)
      then show "devs (addDevices newDevices (added j)) (uuidString tok) = None"
        by (rule absent)
    qed
  next
    have "\<forall>i'\<in>set post. uuidString (token i') \<noteq> uuidString (token i)"
    proof
      fix i' assume m: "i' \<in> set post"
      with h have "i' \<in> set (added n)" by simp
      with h have "length (token i') = 16" by blast
      moreover from h m have "token i' \<noteq> tok" by blast
      ultimately show "uuidString (token i') \<noteq> uuidString (token i)"
        using other [of i'] h by simp
    qed
    then have "devs (addDevices newDevices (pre @ [i] @ post)) (uuidString (token i))
        = Some (newDevice i)"
      by (rule devs_addDevices_last)
    with h show "devs (addDevices newDevices (added n)) (uuidString tok) = Some (newDevice i)"
      by simp
  qed
  have never: "getDevice (\<lambda>j. addDevices newDevices (added j)) 0 did = None"
    if "\<forall>j. \<forall>i'\<in>set (added j). length (token i') = 16 \<and> token i' \<noteq> tok"
    using that by (intro getDevice_never) (simp add: key(1) absent)
  show ?thesis
    using fmt digits inj key ins frame waits never polls [of registry d]
    by (intro conjI impI) blast+
qed


lemma ex_token_strings:
  "uuidString (token ex_info) = ''00010203-0405-0607-0809-0a0b0c0d0eff''"
  "uuidString (token ex_other) = ''ff010203-0405-0607-0809-0a0b0c0d0e0f''"
  by (simp_all add: ex_info_def ex_other_def uuidString_def toHex_def hexDigit_def)

lemma ex_tokens:
  "length (token ex_info) = 16" "length (token ex_other) = 16"
  "token ex_other \<noteq> token ex_info"
  by (simp_all add: ex_info_def ex_other_def)

theorem getDevice_waits_for_device_witness:
  "length (token ex_info) = 16
   \<and> uuidString (token ex_info) = ''00010203-0405-0607-0809-0a0b0c0d0eff''
   \<and> devs (addDevices newDevices (ex_added 2)) ''00010203-0405-0607-0809-0a0b0c0d0eff'' = None
   \<and> devs (addDevices newDevices (ex_added 2)) ''ff010203-0405-0607-0809-0a0b0c0d0e0f''
       = Some (newDevice ex_other)
   \<and> ex_added 3 = [ex_other] @ [ex_info] @ []
   \<and> getDevice (\<lambda>j. addDevices newDevices (ex_added j)) 0 (IdArray (token ex_info))
       = Some (Inr (Some (newDevice ex_info)))
   \<and> getDevice (\<lambda>j. addDevices newDevices (ex_added j)) 0
         (IdObject (newDeviceId (token ex_info)))
       = Some (Inr (Some (newDevice ex_info)))
   \<and> getDevice (\<lambda>j. addDevices newDevices (ex_added j)) 0
         (IdString ''00010203-0405-0607-0809-0a0b0c0d0eff'')
       = Some (Inr (Some (newDevice ex_info)))
   \<and> getDevice (\<lambda>j. addDevices newDevices [ex_other]) 0 (IdArray (token ex_info)) = None"
proof -
  have h1: "\<forall>j\<le>3. \<forall>i'\<in>set (ex_added j). length (token i') = 16"
    by (simp add: ex_added_def ex_tokens)
  have h2: "\<forall>j<3. \<forall>i'\<in>set (ex_added j). token i' \<noteq> token ex_info"
    by (simp add: ex_added_def ex_tokens)
  have h3: "ex_added 3 = [ex_other] @ [ex_info] @ []"
    by (simp add: ex_added_def)
  have h4: "\<forall>j. \<forall>i'\<in>set ((\<lambda>j. [ex_other]) j).
      length (token i') = 16 \<and> token i' \<noteq> token ex_info"
    by (simp add: ex_tokens)
  have two: "addDevices newDevices (ex_added 2) = snd (addDevice newDevices ex_other)"
    by (simp add: ex_added_def addDevices_def)
  note w = getDevice_waits_for_device [OF ex_tokens(1), where n = 3 and i = ex_info
      and pre = "[ex_other]" and post = "[]" and r = newDevices]
  have a: "getDevice (\<lambda>j. addDevices newDevices (ex_added j)) 0 (IdArray (token ex_info))
      = Some (Inr (Some (newDevice ex_info)))"
    using w [where did = "IdArray (token ex_info)" and added = ex_added] h1 h2 h3 by simp
  have b: "getDevice (\<lambda>j. addDevices newDevices (ex_added j)) 0
        (IdObject (newDeviceId (token ex_info))) = Some (Inr (Some (newDevice ex_info)))"
    using w [where did = "IdObject (newDeviceId (token ex_info))" and added = ex_added]
      h1 h2 h3 by simp
  have c: "getDevice (\<lambda>j. addDevices newDevices (ex_added j)) 0
        (IdString ''00010203-0405-0607-0809-0a0b0c0d0eff'')
      = Some (Inr (Some (newDevice ex_info)))"
    using w [where did = "IdString (uuidString (token ex_info))" and added = ex_added]
      h1 h2 h3 by (simp add: ex_token_strings)
  have d: "getDevice (\<lambda>j. addDevices newDevices [ex_other]) 0 (IdArray (token ex_info)) = None"
    using w [where did = "IdArray (token ex_info)" and added = "\<lambda>j. [ex_other]"] h4 by simp
  have e: "devs (addDevices newDevices (ex_added 2)) ''ff010203-0405-0607-0809-0a0b0c0d0e0f''
       = Some (newDevice ex_other)"
    unfolding two by (simp add: devs_addDevice ex_token_strings)
  have f: "devs (addDevices newDevices (ex_added 2)) ''00010203-0405-0607-0809-0a0b0c0d0eff''
       = None"
    unfolding two by (simp add: devs_addDevice ex_token_strings newDevices_def)
  from a b c d e f h3 show ?thesis
    by (simp add: ex_tokens ex_token_strings)
qed

end
